theory Spec2Isabelle
  imports Main "HOL-Library.Char_ord" "HOL-Library.List_Lexorder"
    "HOL-Library.Product_Lexorder" "HOL-Library.Multiset"
begin

section \<open>Data model of the store\<close>

text \<open>
  The program keeps all state in relational tables that it reads and writes with SQL
  statements. A table is modelled as the list of its rows in storage order, a row as a
  record with the column names of the statements in \<open>main.py\<close>. Dates and times
  are the texts the program stores (\<open>%Y-%m-%d\<close> and \<open>%H:%M:%S\<close>); the store
  compares texts byte by byte, which is the lexicographic order on \<open>string\<close>.
  Integer identifiers are Python's unbounded integers, \<open>int\<close>.
  Strings are byte strings: letters outside ASCII are outside this model.
\<close>

text \<open>
  The user id of the session is the text typed at login (\<open>usr = input(...).strip()\<close>),
  and the program binds that text wherever a statement takes the user's id. A column
  written from it holds what the store makes of the text, an integer or a text:
  \<open>sqlval\<close>. The other identifiers are integers that the program read from the
  store or computed.
\<close>

datatype sqlval = SInt int | SText string

record user =
  usr :: int
  name :: string
  email :: string
  phone :: string
  pwd :: string

record tweet =
  tid :: int
  writer_id :: sqlval
  tweet_text :: string
  tdate :: string
  ttime :: string
  replyto_tid :: "int option"

record retweet_row =
  rt_tid :: int
  retweeter_id :: sqlval
  rt_writer_id :: sqlval
  spam :: int
  rdate :: string

record follow =
  flwer :: sqlval
  flwee :: int
  start_date :: string

record hashtag_mention =
  hm_tid :: int
  hterm :: string

record favorite_list =
  owner_id :: sqlval
  lname :: string

record membership =
  inc_owner_id :: sqlval
  inc_lname :: string
  inc_tid :: int

record database =
  users :: "user list"
  tweets :: "tweet list"
  retweets :: "retweet_row list"
  follows :: "follow list"
  hashtag_mentions :: "hashtag_mention list"
  lists_tbl :: "favorite_list list"
  include_tbl :: "membership list"

text \<open>What an operation reports: one constructor per message the source prints.\<close>

datatype outcome =
    RegistrationSuccessful int
  | EmailOrPhoneExists
  | TweetEmpty
  | HashtagsDuplicated "string set"
  | TweetPosted
  | DatabaseError
  | AlreadyRetweeted
  | TweetNotFound int
  | RetweetPosted
  | CannotFollowSelf
  | AlreadyFollowing
  | NowFollowing
  | ListNameEmpty
  | ListExists
  | ListCreated string
  | Cancelled
  | NothingPrinted
  | AlreadyInList
  | TweetAddedTo string

section \<open>Text helpers\<close>


definition lower_char :: "char \<Rightarrow> char" where
  "lower_char c =
     (case map_of (zip ''ABCDEFGHIJKLMNOPQRSTUVWXYZ'' ''abcdefghijklmnopqrstuvwxyz'') c of
        Some l \<Rightarrow> l
      | None \<Rightarrow> c)"

definition lower :: "string \<Rightarrow> string" where
  "lower s = map lower_char s"

definition is_word_char :: "char \<Rightarrow> bool" where
  "is_word_char c \<longleftrightarrow>
     c \<in> set ''abcdefghijklmnopqrstuvwxyzABCDEFGHIJKLMNOPQRSTUVWXYZ0123456789_''"

text \<open>Python's \<open>str.strip\<close>: the ASCII characters that \<open>str.isspace\<close> accepts.\<close>

definition is_space :: "char \<Rightarrow> bool" where
  "is_space c \<longleftrightarrow>
     c \<in> set [CHR 0x20, CHR 0x09, CHR 0x0A, CHR 0x0B, CHR 0x0C, CHR 0x0D,
                CHR 0x1C, CHR 0x1D, CHR 0x1E, CHR 0x1F]"

definition strip :: "string \<Rightarrow> string" where
  "strip s = rev (dropWhile is_space (rev (dropWhile is_space s)))"

text \<open>Python's \<open>str.isdigit\<close> and \<open>int\<close> on ASCII digits, and \<open>str\<close> on an integer.\<close>

definition isdigit :: "string \<Rightarrow> bool" where
  "isdigit s \<longleftrightarrow> s \<noteq> [] \<and> (\<forall>c \<in> set s. c \<in> set ''0123456789'')"

definition digit_value :: "char \<Rightarrow> nat" where
  "digit_value c = (case map_of (zip ''0123456789'' [0, 1, 2, 3, 4, 5, 6, 7, 8, 9]) c of
                      Some n \<Rightarrow> n
                    | None \<Rightarrow> 0)"

definition nat_of_digits :: "string \<Rightarrow> nat" where
  "nat_of_digits s = foldl (\<lambda>n c. 10 * n + digit_value c) 0 s"

function str_nat :: "nat \<Rightarrow> string" where
  "str_nat n = (if n < 10 then [''0123456789'' ! n]
                else str_nat (n div 10) @ [''0123456789'' ! (n mod 10)])"
  by pat_completeness auto
termination
  by (relation "measure id") auto

definition str_int :: "int \<Rightarrow> string" where
  "str_int i = (if i < 0 then CHR ''-'' # str_nat (nat (- i)) else str_nat (nat i))"

text \<open>
  What the store makes of a text bound to a column of integer affinity, in a comparison
  and in an insert: the integer it denotes where the text is a decimal integer literal
  with an optional sign (leading zeros allowed), and the text itself otherwise. The user
  and tweet identifiers are integers, so a login can only succeed with such a literal.
  Texts that denote a real number or an integer beyond 64 bits are outside this model.
\<close>

definition int_affinity :: "string \<Rightarrow> sqlval" where
  "int_affinity s =
     (case s of
        [] \<Rightarrow> SText s
      | c # cs \<Rightarrow>
          if c = CHR ''-'' \<and> isdigit cs then SInt (- int (nat_of_digits cs))
          else if c = CHR ''+'' \<and> isdigit cs then SInt (int (nat_of_digits cs))
          else if isdigit s then SInt (int (nat_of_digits s))
          else SText s)"

text \<open>
  \<open>re.findall(r"#\\w+", s)\<close>: the matches from left to right, each the marker and the
  longest run of word characters after it; a marker with no word character after it
  matches nothing, and the scan goes on behind it.
\<close>

function findall_hashtags :: "string \<Rightarrow> string list" where
  "findall_hashtags [] = []"
| "findall_hashtags (c # cs) =
     (if c = CHR ''#'' \<and> takeWhile is_word_char cs \<noteq> []
      then (c # takeWhile is_word_char cs) # findall_hashtags (dropWhile is_word_char cs)
      else findall_hashtags cs)"
  by pat_completeness auto
termination
  by (relation "measure length") (auto simp: length_dropWhile_le less_Suc_eq_le)

section \<open>Identifier assignment\<close>

text \<open>\<open>SELECT MAX(col) FROM table\<close>: \<open>NULL\<close> (Python's \<open>None\<close>) on an empty table.\<close>

fun sql_max :: "int list \<Rightarrow> int option" where
  "sql_max [] = None"
| "sql_max (x # xs) = Some (fold max xs x)"

text \<open>
  \<open>sign_up\<close>, lines 144 to 146: \<open>new_usr = max_usr + 1 if max_usr else 1\<close>.
  Python's truth test on \<open>max_usr\<close> is false for \<open>None\<close> and for \<open>0\<close>.
\<close>

definition new_usr :: "database \<Rightarrow> int" where
  "new_usr d = (case sql_max (map usr (users d)) of
                  None \<Rightarrow> 1
                | Some max_usr \<Rightarrow> if max_usr \<noteq> 0 then max_usr + 1 else 1)"

text \<open>
  \<open>sign_up\<close> after its input loops: the insert of the new row. The table declaration is
  not part of the source file.
  Modelled from the spec: the uniqueness of \<open>email\<close> and of \<open>phone\<close> in \<open>users\<close>,
  whose violation the source catches as \<open>sqlite3.IntegrityError\<close>.
\<close>

definition sign_up :: "database \<Rightarrow> string \<Rightarrow> string \<Rightarrow> string \<Rightarrow> string \<Rightarrow> database \<times> outcome" where
  "sign_up d nm em ph pw =
     (let n = new_usr d in
      if \<exists>u \<in> set (users d). email u = em \<or> phone u = ph
      then (d, EmailOrPhoneExists)
      else (d\<lparr>users := users d @ [\<lparr>usr = n, name = nm, email = em, phone = ph, pwd = pw\<rparr>]\<rparr>,
            RegistrationSuccessful n))"

text \<open>\<open>get_new_tid\<close>, lines 779 to 781: \<open>return (max_tid or 0) + 1\<close>.\<close>

definition get_new_tid :: "database \<Rightarrow> int" where
  "get_new_tid d = (case sql_max (map tid (tweets d)) of
                      None \<Rightarrow> 0
                    | Some max_tid \<Rightarrow> if max_tid \<noteq> 0 then max_tid else 0) + 1"

section \<open>Connections and transactions\<close>

text \<open>
  Python's \<open>sqlite3\<close> connection: statements act on a working copy inside a
  transaction that the first \<open>INSERT\<close> opens; \<open>commit\<close> makes the working copy the
  stored one, \<open>rollback\<close> discards it. Any statement may raise \<open>sqlite3.Error\<close>
  (the store is unreachable or rejects it): the oracle \<open>ok\<close> says whether the store
  carries out the \<open>i\<close>-th statement of a call. A raise carries the connection as it is
  at that moment and skips the statements after it.
\<close>

record connection =
  committed :: database
  working :: database

datatype result = Done connection | Raised connection

definition execute :: "(nat \<Rightarrow> bool) \<Rightarrow> nat \<Rightarrow> (database \<Rightarrow> database) \<Rightarrow> connection \<Rightarrow> result" where
  "execute ok i stmt c = (if ok i then Done (c\<lparr>working := stmt (working c)\<rparr>) else Raised c)"

definition commit :: "(nat \<Rightarrow> bool) \<Rightarrow> nat \<Rightarrow> connection \<Rightarrow> result" where
  "commit ok i c = (if ok i then Done (c\<lparr>committed := working c\<rparr>) else Raised c)"

definition rollback :: "connection \<Rightarrow> connection" where
  "rollback c = c\<lparr>working := committed c\<rparr>"

definition then_do :: "result \<Rightarrow> (connection \<Rightarrow> result) \<Rightarrow> result" where
  "then_do r f = (case r of Done c \<Rightarrow> f c | Raised c \<Rightarrow> Raised c)"

text \<open>
  \<open>try: with sqlite3.connect(db_file) as conn: body  except sqlite3.Error: print\<close>.
  Leaving the block normally commits, leaving it by an exception rolls back; what is
  stored afterwards is the committed copy.
\<close>

definition with_connection :: "database \<Rightarrow> (connection \<Rightarrow> result) \<Rightarrow> outcome \<Rightarrow> database \<times> outcome" where
  "with_connection d body success =
     (case body \<lparr>committed = d, working = d\<rparr> of
        Done c \<Rightarrow> (committed (c\<lparr>committed := working c\<rparr>), success)
      | Raised c \<Rightarrow> (committed (rollback c), DatabaseError))"

section \<open>Composing a tweet\<close>

definition insert_tweet :: "tweet \<Rightarrow> database \<Rightarrow> database" where
  "insert_tweet t d = d\<lparr>tweets := tweets d @ [t]\<rparr>"

definition insert_hashtag_mention :: "int \<Rightarrow> string \<Rightarrow> database \<Rightarrow> database" where
  "insert_hashtag_mention t h d =
     d\<lparr>hashtag_mentions := hashtag_mentions d @ [\<lparr>hm_tid = t, hterm = h\<rparr>]\<rparr>"

text \<open>
  \<open>for hashtag in set(hashtags)\<close>, lines 840 to 844: one insert per element, the marker
  removed by \<open>hashtag[1:]\<close>. Python walks a set in an order of its own; the list is
  free of repetitions at this point, the model walks it in the order of the text, and
  the properties below do not depend on the order.
\<close>

fun insert_hashtags :: "(nat \<Rightarrow> bool) \<Rightarrow> nat \<Rightarrow> int \<Rightarrow> string list \<Rightarrow> connection \<Rightarrow> result" where
  "insert_hashtags ok i t [] c = Done c"
| "insert_hashtags ok i t (hashtag # rest) c =
     then_do (execute ok i (insert_hashtag_mention t (drop 1 hashtag)) c)
             (insert_hashtags ok (Suc i) t rest)"

text \<open>
  \<open>compose_tweet\<close>, lines 806 to 850. \<open>line\<close> is what the user typed, \<open>now_date\<close>
  and \<open>now_time\<close> are the two texts made from \<open>datetime.now()\<close>. Statement 0 is the
  \<open>SELECT MAX(tid)\<close>, statement 1 the insert of the tweet, then one statement per
  hashtag, then the commit.
\<close>

definition compose_tweet :: "(nat \<Rightarrow> bool) \<Rightarrow> database \<Rightarrow> string \<Rightarrow> string \<Rightarrow> string \<Rightarrow> string \<Rightarrow> database \<times> outcome" where
  "compose_tweet ok d u now_date now_time line =
     (let tweet_text = strip line in
      if tweet_text = [] then (d, TweetEmpty)
      else
        let hashtags = findall_hashtags (lower tweet_text);
            duplicate_hashtags = filter (\<lambda>h. count_list hashtags h > 1) hashtags
        in if duplicate_hashtags \<noteq> [] then (d, HashtagsDuplicated (set duplicate_hashtags))
           else with_connection d
                  (\<lambda>c. then_do (execute ok 0 (\<lambda>w. w) c)
                    (\<lambda>c. let new_tid = get_new_tid (working c) in
                      then_do (execute ok 1 (insert_tweet
                                 \<lparr>tid = new_tid, writer_id = int_affinity u,
                                  tweet_text = tweet_text,
                                  tdate = now_date, ttime = now_time, replyto_tid = None\<rparr>) c)
                        (\<lambda>c. then_do (insert_hashtags ok 2 new_tid (remdups hashtags) c)
                          (commit ok (2 + length (remdups hashtags))))))
                  TweetPosted)"

text \<open>The store after a tweet and the rows of its hashtags have been written.\<close>

definition posted :: "database \<Rightarrow> string \<Rightarrow> string \<Rightarrow> string \<Rightarrow> string \<Rightarrow> string list \<Rightarrow> database" where
  "posted d u now_date now_time body hashtags =
     d\<lparr>tweets := tweets d @ [\<lparr>tid = get_new_tid d, writer_id = int_affinity u,
                                tweet_text = body,
                                tdate = now_date, ttime = now_time, replyto_tid = None\<rparr>],
       hashtag_mentions := hashtag_mentions d @
          map (\<lambda>h. \<lparr>hm_tid = get_new_tid d, hterm = drop 1 h\<rparr>) hashtags\<rparr>"

section \<open>The feed\<close>

text \<open>A row of the feed query: \<open>type, tid, tdate, ttime, spam, text\<close>.\<close>

record feed_row =
  row_type :: string
  row_tid :: int
  row_tdate :: string
  row_ttime :: string
  row_spam :: int
  row_text :: string

text \<open>\<open>SELECT flwee FROM follows WHERE flwer = ?\<close>, bound to the session's user id.\<close>

definition followees :: "database \<Rightarrow> string \<Rightarrow> sqlval list" where
  "followees d u = map (\<lambda>f. SInt (flwee f)) (filter (\<lambda>f. flwer f = int_affinity u) (follows d))"

text \<open>The first \<open>SELECT\<close> of the feed query, lines 232 to 234.\<close>

definition feed_tweets :: "database \<Rightarrow> string \<Rightarrow> feed_row list" where
  "feed_tweets d u =
     [\<lparr>row_type = ''tweet'', row_tid = tid t, row_tdate = tdate t, row_ttime = ttime t,
       row_spam = 0, row_text = tweet_text t\<rparr>.
      t \<leftarrow> tweets d, writer_id t \<in> set (followees d u)]"

text \<open>The second \<open>SELECT\<close>, lines 238 to 243: retweets joined with their tweets.\<close>

definition feed_retweets :: "database \<Rightarrow> string \<Rightarrow> feed_row list" where
  "feed_retweets d u =
     [\<lparr>row_type = ''retweet'', row_tid = rt_tid r, row_tdate = rdate r, row_ttime = [],
       row_spam = spam r, row_text = tweet_text t\<rparr>.
      r \<leftarrow> retweets d, t \<leftarrow> tweets d, rt_tid r = tid t,
      retweeter_id r \<in> set (followees d u), spam r = 0]"

text \<open>
  \<open>ORDER BY tdate DESC, ttime DESC\<close>. The store fixes the order of rows with equal
  keys in some way of its own; the model sorts stably and reverses.
\<close>

definition order_by_desc :: "feed_row list \<Rightarrow> feed_row list" where
  "order_by_desc rows = rev (sort_key (\<lambda>e. (row_tdate e, row_ttime e)) rows)"

text \<open>The query without its last line, and with \<open>LIMIT 5 OFFSET ?\<close>.\<close>

definition feed :: "database \<Rightarrow> string \<Rightarrow> feed_row list" where
  "feed d u = order_by_desc (feed_tweets d u @ feed_retweets d u)"

definition feed_query :: "database \<Rightarrow> string \<Rightarrow> nat \<Rightarrow> feed_row list" where
  "feed_query d u offset = take 5 (drop offset (feed d u))"

text \<open>
  The loop of \<open>show_feed\<close>, lines 249 to 322, as the list of the pages it prints.
  \<open>inputs\<close> are the lines the user types at the prompts; a line that is not one of the
  offered letters is asked again; \<open>n\<close> is offered only when the probe at
  \<open>offset + 5\<close> finds a row. When the typed lines run out the user is still at a
  prompt, with the pages printed so far on the screen.
\<close>

function show_feed_from :: "database \<Rightarrow> string \<Rightarrow> nat \<Rightarrow> string list \<Rightarrow> feed_row list list" where
  "show_feed_from d u offset inputs =
     (if feed_query d u 0 = [] then []
      else if feed_query d u offset = [] then []
      else if feed_query d u (offset + 5) \<noteq> []
      then (case dropWhile (\<lambda>l. lower (strip l) \<notin> {''n'', ''b'', ''q''}) inputs of
              [] \<Rightarrow> [feed_query d u offset]
            | l # rest \<Rightarrow>
                if lower (strip l) = ''n''
                then feed_query d u offset # show_feed_from d u (offset + 5) rest
                else [feed_query d u offset])
      else [feed_query d u offset])"
  by pat_completeness auto
termination
proof (relation "measure (\<lambda>(d, u, offset, inputs). length inputs)")
  show "wf (measure (\<lambda>(d, u, offset, inputs). length inputs))" by simp
next
  fix d :: database and u :: string and offset :: nat and inputs :: "string list"
    and l :: string and rest :: "string list"
  assume "dropWhile (\<lambda>l. lower (strip l) \<notin> {''n'', ''b'', ''q''}) inputs = l # rest"
  then have "Suc (length rest) \<le> length inputs"
    by (metis length_Cons length_dropWhile_le)
  then show "((d, u, offset + 5, rest), (d, u, offset, inputs))
      \<in> measure (\<lambda>(d, u, offset, inputs). length inputs)"
    by simp
qed

declare show_feed_from.simps [simp del]

definition show_feed :: "database \<Rightarrow> string \<Rightarrow> string list \<Rightarrow> feed_row list list" where
  "show_feed d u inputs = show_feed_from d u 0 inputs"

section \<open>Retweeting and following\<close>

text \<open>
  \<open>retweet\<close>, lines 719 to 758. \<open>t\<close> is the tweet id taken from a result row,
  \<open>today\<close> the text made from \<open>datetime.now()\<close>. The store is taken to carry out
  each statement.
\<close>

definition retweet :: "database \<Rightarrow> string \<Rightarrow> int \<Rightarrow> string \<Rightarrow> database \<times> outcome" where
  "retweet d today t u =
     (if length (filter (\<lambda>r. rt_tid r = t \<and> retweeter_id r = int_affinity u) (retweets d)) > 0
      then (d, AlreadyRetweeted)
      else case find (\<lambda>tw. tid tw = t) (tweets d) of
             None \<Rightarrow> (d, TweetNotFound t)
           | Some tw \<Rightarrow>
               (d\<lparr>retweets := retweets d @
                    [\<lparr>rt_tid = t, retweeter_id = int_affinity u, rt_writer_id = writer_id tw,
                      spam = 0, rdate = today\<rparr>]\<rparr>,
                RetweetPosted))"

text \<open>
  The table declarations are not part of the source file.
  Modelled from the spec: the referential link from \<open>retweets.tid\<close> to \<open>tweets\<close>
  of the data model, a retweet being a share event that references an existing tweet.
  The program keeps it: its only insert into \<open>retweets\<close> follows the test that the
  tweet is stored, and it removes no tweet.
\<close>

definition retweets_refer_to_tweets :: "database \<Rightarrow> bool" where
  "retweets_refer_to_tweets d \<longleftrightarrow> (\<forall>r \<in> set (retweets d). rt_tid r \<in> tid ` set (tweets d))"

text \<open>\<open>SELECT COUNT(*) FROM retweets WHERE tid = ?\<close>, lines 520 to 521.\<close>

definition retweet_count :: "database \<Rightarrow> int \<Rightarrow> nat" where
  "retweet_count d t = length (filter (\<lambda>r. rt_tid r = t) (retweets d))"

text \<open>
  \<open>follow_user\<close>, lines 1007 to 1024. \<open>current_usr\<close> is the session's text,
  \<open>target_usr\<close> the integer read from a row of \<open>users\<close>, and the test of line 1010
  compares the text with \<open>str(target_usr)\<close>. \<open>today\<close> is \<open>DATE('now')\<close>.
\<close>

definition follow_user :: "database \<Rightarrow> string \<Rightarrow> string \<Rightarrow> int \<Rightarrow> database \<times> outcome" where
  "follow_user d today current_usr target_usr =
     (if current_usr = str_int target_usr then (d, CannotFollowSelf)
      else if \<exists>f \<in> set (follows d). flwer f = int_affinity current_usr \<and> flwee f = target_usr
      then (d, AlreadyFollowing)
      else (d\<lparr>follows := follows d @
                [\<lparr>flwer = int_affinity current_usr, flwee = target_usr, start_date = today\<rparr>]\<rparr>,
            NowFollowing))"

section \<open>Logging in\<close>

text \<open>
  \<open>login\<close>, lines 75 to 89: the row that
  \<open>SELECT * FROM users WHERE usr = ? AND pwd = ?\<close> yields first for the typed text and
  password, and with it the session, whose user id is the typed text.
\<close>

definition login :: "database \<Rightarrow> string \<Rightarrow> string \<Rightarrow> user option" where
  "login d line pw = find (\<lambda>x. SInt (usr x) = int_affinity (strip line) \<and> pwd x = pw) (users d)"

section \<open>Searching tweets\<close>

text \<open>Python's \<open>str.split(',')\<close>.\<close>

fun split_comma :: "string \<Rightarrow> string list" where
  "split_comma [] = [[]]"
| "split_comma (c # cs) =
     (if c = CHR '','' then [] # split_comma cs
      else (case split_comma cs of [] \<Rightarrow> [[c]] | p # ps \<Rightarrow> (c # p) # ps))"

text \<open>
  The store's \<open>LIKE\<close>, pattern first: \<open>%\<close> stands for any run of characters,
  \<open>_\<close> for any one character, and any other character for itself without regard
  to the case of ASCII letters. No escape character is set.
\<close>

fun sql_like :: "string \<Rightarrow> string \<Rightarrow> bool" where
  "sql_like [] [] = True"
| "sql_like [] (c # cs) = False"
| "sql_like (p # ps) [] = (p = CHR ''%'' \<and> sql_like ps [])"
| "sql_like (p # ps) (c # cs) =
     (if p = CHR ''%'' then sql_like ps (c # cs) \<or> sql_like (p # ps) cs
      else (p = CHR ''_'' \<or> lower_char p = lower_char c) \<and> sql_like ps cs)"

text \<open>A row of the search query: \<open>tid, writer_id, text, tdate, ttime\<close>.\<close>

record found_tweet =
  found_tid :: int
  found_writer_id :: sqlval
  found_text :: string
  found_tdate :: string
  found_ttime :: string

definition found :: "tweet \<Rightarrow> found_tweet" where
  "found t = \<lparr>found_tid = tid t, found_writer_id = writer_id t, found_text = tweet_text t,
              found_tdate = tdate t, found_ttime = ttime t\<rparr>"

text \<open>Line 422: the typed line cut at the commas, each piece stripped and lower-cased.\<close>

definition keywords_of :: "string \<Rightarrow> string list" where
  "keywords_of line = [lower (strip kw). kw \<leftarrow> split_comma (strip line), strip kw \<noteq> []]"

text \<open>
  The two \<open>SELECT\<close>s of the search query, lines 434 to 441, with the parameters of
  line 450: the patterns \<open>%kw%\<close> for the first, the keywords for the second.
\<close>

definition text_matches :: "database \<Rightarrow> string list \<Rightarrow> found_tweet list" where
  "text_matches d keywords =
     [found t. t \<leftarrow> tweets d,
      \<exists>kw \<in> set keywords. sql_like (''%'' @ kw @ ''%'') (lower (tweet_text t))]"

definition hashtag_matches :: "database \<Rightarrow> string list \<Rightarrow> found_tweet list" where
  "hashtag_matches d keywords =
     [found t. t \<leftarrow> tweets d, h \<leftarrow> hashtag_mentions d, tid t = hm_tid h,
      lower (hterm h) \<in> set keywords]"

text \<open>
  \<open>search_tweets\<close>, lines 421 to 453: \<open>None\<close> stands for "No keywords provided.",
  otherwise the rows of the \<open>UNION\<close>, which drops repeated rows, in the order of
  \<open>ORDER BY tdate DESC, ttime DESC\<close>.
\<close>

definition search_tweets :: "database \<Rightarrow> string \<Rightarrow> found_tweet list option" where
  "search_tweets d line =
     (let keywords = keywords_of line in
      if keywords = [] then None
      else Some (rev (sort_key (\<lambda>r. (found_tdate r, found_ttime r))
                   (remdups (text_matches d keywords @ hashtag_matches d keywords)))))"

text \<open>
  The words of the specification, for comparison: a keyword is a substring of a text
  without regard to case.
\<close>

fun is_substring :: "string \<Rightarrow> string \<Rightarrow> bool" where
  "is_substring kw [] = (kw = [])"
| "is_substring kw (c # cs) = (take (length kw) (c # cs) = kw \<or> is_substring kw cs)"

definition spec_text_match :: "string \<Rightarrow> string \<Rightarrow> bool" where
  "spec_text_match kw body \<longleftrightarrow> is_substring (lower kw) (lower body)"

section \<open>Favorite lists\<close>

text \<open>\<open>create_favorite_list\<close>, lines 570 to 595; \<open>line\<close> is the name the user types.\<close>

definition create_favorite_list :: "database \<Rightarrow> string \<Rightarrow> string \<Rightarrow> database \<times> outcome" where
  "create_favorite_list d u line =
     (let list_name = strip line in
      if list_name = [] then (d, ListNameEmpty)
      else if \<exists>l \<in> set (lists_tbl d). owner_id l = int_affinity u \<and> lname l = list_name
      then (d, ListExists)
      else (d\<lparr>lists_tbl := lists_tbl d @ [\<lparr>owner_id = int_affinity u, lname = list_name\<rparr>]\<rparr>,
            ListCreated list_name))"

text \<open>\<open>SELECT lname FROM lists WHERE owner_id = ?\<close>, lines 624 and 633.\<close>

definition fav_lists :: "database \<Rightarrow> string \<Rightarrow> string list" where
  "fav_lists d u = map lname (filter (\<lambda>l. owner_id l = int_affinity u) (lists_tbl d))"

text \<open>
  Lines 643 to 667: the choice of a list by its number and the insert. \<open>t\<close> is the
  tweet id the caller passes. A number out of range and a line that is neither \<open>q\<close>
  nor a number print nothing.
\<close>

definition choose_list :: "database \<Rightarrow> string \<Rightarrow> int \<Rightarrow> string \<Rightarrow> database \<times> outcome" where
  "choose_list d u t line =
     (let list_choice = strip line in
      if lower list_choice = ''q'' then (d, Cancelled)
      else if isdigit list_choice then
        (let list_idx = int (nat_of_digits list_choice) - 1 in
         if 0 \<le> list_idx \<and> list_idx < int (length (fav_lists d u)) then
           (let chosen = fav_lists d u ! nat list_idx in
            if \<exists>m \<in> set (include_tbl d).
                 inc_owner_id m = int_affinity u \<and> inc_lname m = chosen \<and> inc_tid m = t
            then (d, AlreadyInList)
            else (d\<lparr>include_tbl := include_tbl d @
                      [\<lparr>inc_owner_id = int_affinity u, inc_lname = chosen, inc_tid = t\<rparr>]\<rparr>,
                  TweetAddedTo chosen))
         else (d, NothingPrinted))
      else (d, NothingPrinted))"

text \<open>
  \<open>add_to_favorite_list\<close>, lines 619 to 670. \<open>name_line\<close> is read only when the user
  has no list yet, \<open>choice_line\<close> is the answer to the list menu.
\<close>

definition add_to_favorite_list :: "database \<Rightarrow> string \<Rightarrow> int \<Rightarrow> string \<Rightarrow> string \<Rightarrow> database \<times> outcome" where
  "add_to_favorite_list d u t name_line choice_line =
     (if fav_lists d u = [] then
        (let (d1, created) = create_favorite_list d u name_line in
         if fav_lists d1 u = [] then (d1, created)
         else choose_list d1 u t choice_line)
      else choose_list d u t choice_line)"

section \<open>Example states\<close>

definition empty_db :: database where
  "empty_db = \<lparr>users = [], tweets = [], retweets = [], follows = [],
                hashtag_mentions = [], lists_tbl = [], include_tbl = []\<rparr>"

definition three_users :: database where
  "three_users = empty_db\<lparr>users :=
     [\<lparr>usr = 3, name = ''Ann'', email = ''ann@x.org'', phone = ''1'', pwd = ''a''\<rparr>,
      \<lparr>usr = 7, name = ''Bob'', email = ''bob@x.org'', phone = ''2'', pwd = ''b''\<rparr>,
      \<lparr>usr = 5, name = ''Cy'', email = ''cy@x.org'', phone = ''3'', pwd = ''c''\<rparr>],
     tweets :=
     [\<lparr>tid = 4, writer_id = SInt 7, tweet_text = ''hello #world'', tdate = ''2024-03-01'',
       ttime = ''09:00:00'', replyto_tid = None\<rparr>]\<rparr>"

text \<open>
  User 1 follows user 2 and nobody else. User 2 wrote six tweets and retweeted tweet 20
  of user 3 (not spam) and tweet 21 of user 3 (flagged as spam).
\<close>

definition small_net :: database where
  "small_net = empty_db\<lparr>
     follows := [\<lparr>flwer = SInt 1, flwee = 2, start_date = ''2024-01-01''\<rparr>],
     tweets :=
       [\<lparr>tid = 10, writer_id = SInt 2, tweet_text = ''a'', tdate = ''2024-03-01'',
         ttime = ''09:00:00'', replyto_tid = None\<rparr>,
        \<lparr>tid = 11, writer_id = SInt 2, tweet_text = ''b'', tdate = ''2024-03-02'',
         ttime = ''10:00:00'', replyto_tid = None\<rparr>,
        \<lparr>tid = 12, writer_id = SInt 2, tweet_text = ''c'', tdate = ''2024-03-02'',
         ttime = ''08:30:00'', replyto_tid = Some 10\<rparr>,
        \<lparr>tid = 13, writer_id = SInt 2, tweet_text = ''d'', tdate = ''2024-03-03'',
         ttime = ''07:00:00'', replyto_tid = None\<rparr>,
        \<lparr>tid = 14, writer_id = SInt 2, tweet_text = ''e'', tdate = ''2024-03-04'',
         ttime = ''07:00:00'', replyto_tid = None\<rparr>,
        \<lparr>tid = 15, writer_id = SInt 2, tweet_text = ''f'', tdate = ''2024-03-05'',
         ttime = ''07:00:00'', replyto_tid = None\<rparr>,
        \<lparr>tid = 20, writer_id = SInt 3, tweet_text = ''g'', tdate = ''2024-02-01'',
         ttime = ''12:00:00'', replyto_tid = None\<rparr>,
        \<lparr>tid = 21, writer_id = SInt 3, tweet_text = ''h'', tdate = ''2024-02-02'',
         ttime = ''12:00:00'', replyto_tid = None\<rparr>],
     retweets :=
       [\<lparr>rt_tid = 20, retweeter_id = SInt 2, rt_writer_id = SInt 3, spam = 0,
         rdate = ''2024-03-02''\<rparr>,
        \<lparr>rt_tid = 21, retweeter_id = SInt 2, rt_writer_id = SInt 3, spam = 1,
         rdate = ''2024-03-06''\<rparr>]\<rparr>"

text \<open>One tweet with the text \<open>abc\<close> and no hashtag.\<close>

definition one_tweet :: database where
  "one_tweet = empty_db\<lparr>tweets :=
     [\<lparr>tid = 1, writer_id = SInt 2, tweet_text = ''abc'', tdate = ''2024-03-01'',
       ttime = ''09:00:00'', replyto_tid = None\<rparr>]\<rparr>"

text \<open>User 1 owns the list \<open>best\<close>; there is no tweet at all.\<close>

definition one_list :: database where
  "one_list = empty_db\<lparr>lists_tbl := [\<lparr>owner_id = SInt 1, lname = ''best''\<rparr>]\<rparr>"

section \<open>Properties of identifier assignment\<close>

lemma fold_max_Max: "fold max xs (x::int) = Max (set (x # xs))"
proof (induction xs arbitrary: x)
  case Nil
  show ?case by simp
next
  case (Cons y ys)
  have "fold max (y # ys) x = Max (set (max y x # ys))"
    using Cons.IH [of "max y x"] by simp
  also have "\<dots> = Max (set (x # y # ys))"
    by (cases ys) (simp_all add: max.commute max.left_commute)
  finally show ?case .
qed

lemma sql_max_Some: "xs \<noteq> [] \<Longrightarrow> sql_max xs = Some (Max (set xs))"
  by (cases xs) (simp_all add: fold_max_Max)

section \<open>Properties of the transaction\<close>

lemma no_duplicates_iff: "filter (\<lambda>h. count_list hs h > 1) hs = [] \<longleftrightarrow> distinct hs"
proof -
  have "filter (\<lambda>h. count_list hs h > 1) hs = [] \<longleftrightarrow> (\<forall>h \<in> set hs. count_list hs h \<le> 1)"
    by (auto simp: filter_empty_conv not_less)
  also have "\<dots> \<longleftrightarrow> (\<forall>h. count (mset hs) h = (if h \<in> set hs then 1 else 0))"
    by (auto simp: count_mset count_list_0_iff le_Suc_eq)
  also have "\<dots> \<longleftrightarrow> distinct hs"
    by (simp only: distinct_count_atmost_1)
  finally show ?thesis .
qed

lemma insert_hashtags_Done:
  "insert_hashtags ok i t hs c = Done c' \<Longrightarrow>
     c' = c\<lparr>working := (working c)\<lparr>hashtag_mentions := hashtag_mentions (working c) @
            map (\<lambda>h. \<lparr>hm_tid = t, hterm = drop 1 h\<rparr>) hs\<rparr>\<rparr> \<and> (\<forall>j. i \<le> j \<and> j < i + length hs \<longrightarrow> ok j)"
proof (induction hs arbitrary: i c)
  case Nil
  then show ?case by auto
next
  case (Cons h hs)
  show ?case
  proof (cases "ok i")
    case True
    let ?c1 = "c\<lparr>working := insert_hashtag_mention t (drop 1 h) (working c)\<rparr>"
    have "insert_hashtags ok (Suc i) t hs ?c1 = Done c'"
      using Cons.prems True by (simp add: then_do_def execute_def)
    from Cons.IH [OF this] have eq: "c' = ?c1\<lparr>working := (working ?c1)\<lparr>hashtag_mentions := hashtag_mentions (working ?c1) @
            map (\<lambda>h. \<lparr>hm_tid = t, hterm = drop 1 h\<rparr>) hs\<rparr>\<rparr>"
      and oks: "\<forall>j. Suc i \<le> j \<and> j < Suc i + length hs \<longrightarrow> ok j" by blast+
    have "\<forall>j. i \<le> j \<and> j < i + length (h # hs) \<longrightarrow> ok j"
    proof (intro allI impI)
      fix j assume j: "i \<le> j \<and> j < i + length (h # hs)"
      show "ok j"
      proof (cases "j = i")
        case True with \<open>ok i\<close> show ?thesis by simp
      next
        case False
        with j have "Suc i \<le> j \<and> j < Suc i + length hs" by simp
        with oks show ?thesis by blast
      qed
    qed
    with eq show ?thesis by (simp add: insert_hashtag_mention_def)
  next
    case False
    then show ?thesis using Cons.prems by (auto simp add: then_do_def execute_def)
  qed
qed

lemma insert_hashtags_all_ok:
  "(\<forall>j. i \<le> j \<and> j < i + length hs \<longrightarrow> ok j) \<Longrightarrow>
   insert_hashtags ok i t hs c = Done (c\<lparr>working := (working c)\<lparr>hashtag_mentions := hashtag_mentions (working c) @
            map (\<lambda>h. \<lparr>hm_tid = t, hterm = drop 1 h\<rparr>) hs\<rparr>\<rparr>)"
proof (induction hs arbitrary: i c)
  case Nil
  show ?case by simp
next
  case (Cons h hs)
  have "ok i" using Cons.prems by simp
  moreover have "\<forall>j. Suc i \<le> j \<and> j < Suc i + length hs \<longrightarrow> ok j" using Cons.prems by simp
  ultimately show ?case using Cons.IH [of "Suc i"]
    by (simp add: then_do_def execute_def insert_hashtag_mention_def)
qed

lemma insert_hashtags_Raised:
  "insert_hashtags ok i t hs c = Raised c' \<Longrightarrow> committed c' = committed c \<and> (\<exists>j. i \<le> j \<and> j < i + length hs \<and> \<not> ok j)"
proof (induction hs arbitrary: i c)
  case Nil
  then show ?case by simp
next
  case (Cons h hs)
  show ?case
  proof (cases "ok i")
    case True
    let ?c1 = "c\<lparr>working := insert_hashtag_mention t (drop 1 h) (working c)\<rparr>"
    have "insert_hashtags ok (Suc i) t hs ?c1 = Raised c'"
      using Cons.prems True by (simp add: then_do_def execute_def)
    from Cons.IH [OF this] obtain j where "committed c' = committed c" "Suc i \<le> j" "j < Suc i + length hs" "\<not> ok j"
      by auto
    then show ?thesis by (intro conjI exI [of _ j]) simp_all
  next
    case False
    then show ?thesis using Cons.prems by (auto simp add: then_do_def execute_def)
  qed
qed


lemma compose_tweet_valid:
  assumes ne: "strip line \<noteq> []"
    and dist: "distinct (findall_hashtags (lower (strip line)))"
  shows "compose_tweet ok d u dt tm line =
     (if \<forall>j < 3 + length (findall_hashtags (lower (strip line))). ok j
      then (posted d u dt tm (strip line) (findall_hashtags (lower (strip line))), TweetPosted)
      else (d, DatabaseError))"
proof -
  let ?hs = "findall_hashtags (lower (strip line))"
  let ?t = "\<lparr>tid = get_new_tid d, writer_id = int_affinity u, tweet_text = strip line,
            tdate = dt, ttime = tm, replyto_tid = None\<rparr>"
  let ?c1 = "\<lparr>committed = d, working = insert_tweet ?t d\<rparr>"
  let ?body = "\<lambda>c. then_do (execute ok 0 (\<lambda>w. w) c)
                    (\<lambda>c. let new_tid = get_new_tid (working c) in
                      then_do (execute ok 1 (insert_tweet
                                 \<lparr>tid = new_tid, writer_id = int_affinity u, tweet_text = strip line,
                                  tdate = dt, ttime = tm, replyto_tid = None\<rparr>) c)
                        (\<lambda>c. then_do (insert_hashtags ok 2 new_tid (remdups ?hs) c)
                          (commit ok (2 + length (remdups ?hs)))))"
  have unfold: "compose_tweet ok d u dt tm line = with_connection d ?body TweetPosted"
    using ne dist no_duplicates_iff [of "findall_hashtags (lower (strip line))"]
    by (simp add: compose_tweet_def Let_def)
  have rd: "remdups ?hs = ?hs" using dist by (rule distinct_remdups_id)
  show ?thesis
  proof (cases "ok 0 \<and> ok 1")
    case False
    moreover have "(0::nat) < 3 + length ?hs" "(1::nat) < 3 + length ?hs" by simp_all
    ultimately have "\<not> (\<forall>j < 3 + length ?hs. ok j)" by blast
    moreover have "with_connection d ?body TweetPosted = (d, DatabaseError)"
      using False by (auto simp: with_connection_def then_do_def execute_def rollback_def Let_def)
    ultimately show ?thesis using unfold by simp
  next
    case True
    have step: "?body \<lparr>committed = d, working = d\<rparr> =
        then_do (insert_hashtags ok 2 (get_new_tid d) ?hs ?c1) (commit ok (2 + length ?hs))"
      using True by (simp add: then_do_def execute_def Let_def rd)
    show ?thesis
    proof (cases "insert_hashtags ok 2 (get_new_tid d) ?hs ?c1")
      case (Raised c')
      from insert_hashtags_Raised [OF this] obtain j where
        c': "committed c' = d" and j: "j < 2 + length ?hs" "\<not> ok j" by auto
      have "j < 3 + length ?hs" using j by simp
      then have "\<not> (\<forall>j < 3 + length ?hs. ok j)" using j by blast
      moreover have "with_connection d ?body TweetPosted = (d, DatabaseError)"
        using step Raised c' by (simp add: with_connection_def then_do_def rollback_def)
      ultimately show ?thesis using unfold by simp
    next
      case (Done c')
      from insert_hashtags_Done [OF this] have
        c': "c' = ?c1\<lparr>working := (working ?c1)\<lparr>hashtag_mentions := hashtag_mentions (working ?c1) @
            map (\<lambda>h. \<lparr>hm_tid = get_new_tid d, hterm = drop 1 h\<rparr>) ?hs\<rparr>\<rparr>"
        and oks: "\<forall>j. 2 \<le> j \<and> j < 2 + length ?hs \<longrightarrow> ok j" by blast+
      have low: "\<forall>j < 2 + length ?hs. ok j"
      proof (intro allI impI)
        fix j assume "j < 2 + length ?hs"
        then consider "j = 0" | "j = 1" | "2 \<le> j \<and> j < 2 + length ?hs" by linarith
        then show "ok j" using True oks by cases auto
      qed
      show ?thesis
      proof (cases "ok (2 + length ?hs)")
        case True
        have "\<forall>j < 3 + length ?hs. ok j"
        proof (intro allI impI)
          fix j assume "j < 3 + length ?hs"
          then have "j < 2 + length ?hs \<or> j = 2 + length ?hs" by linarith
          then show "ok j" using low True by auto
        qed
        moreover have "with_connection d ?body TweetPosted = (posted d u dt tm (strip line) ?hs, TweetPosted)"
          using step Done c' True
          by (simp add: with_connection_def then_do_def commit_def posted_def insert_tweet_def)
        ultimately show ?thesis using unfold by simp
      next
        case False
        moreover have "2 + length ?hs < 3 + length ?hs" by simp
        ultimately have "\<not> (\<forall>j < 3 + length ?hs. ok j)" by blast
        moreover have "with_connection d ?body TweetPosted = (d, DatabaseError)"
          using step Done c' False
          by (simp add: with_connection_def then_do_def commit_def rollback_def)
        ultimately show ?thesis using unfold by simp
      qed
    qed
  qed
qed








lemma compose_tweet_posted:
  assumes "compose_tweet ok d u dt tm line = (d', TweetPosted)"
  shows "strip line \<noteq> [] \<and> distinct (findall_hashtags (lower (strip line))) \<and>
         (\<forall>j < 3 + length (findall_hashtags (lower (strip line))). ok j) \<and>
         d' = posted d u dt tm (strip line) (findall_hashtags (lower (strip line)))"
proof -
  let ?hs = "findall_hashtags (lower (strip line))"
  have ne: "strip line \<noteq> []"
    using assms by (auto simp: compose_tweet_def)
  have dist: "distinct ?hs"
  proof (rule ccontr)
    assume "\<not> distinct ?hs"
    then have "filter (\<lambda>h. count_list ?hs h > 1) ?hs \<noteq> []"
      by (simp only: no_duplicates_iff not_False_eq_True)
    then show False using assms ne by (simp add: compose_tweet_def Let_def)
  qed
  from compose_tweet_valid [OF ne dist, of ok d u dt tm] assms
  show ?thesis using ne dist by (auto split: if_splits)
qed

lemma compose_tweet_not_posted:
  assumes "compose_tweet ok d u dt tm line = (d', out)" and "out \<noteq> TweetPosted"
  shows "d' = d"
proof (cases "strip line = []")
  case True
  then show ?thesis using assms by (simp add: compose_tweet_def)
next
  case ne: False
  let ?hs = "findall_hashtags (lower (strip line))"
  show ?thesis
  proof (cases "distinct ?hs")
    case True
    from compose_tweet_valid [OF ne True, of ok d u dt tm] assms
    show ?thesis by (auto split: if_splits)
  next
    case False
    then have "filter (\<lambda>h. count_list ?hs h > 1) ?hs \<noteq> []"
      by (simp only: no_duplicates_iff not_False_eq_True)
    then show ?thesis using assms ne by (simp add: compose_tweet_def Let_def)
  qed
qed

section \<open>Identifier assignment: the claim\<close>

text \<open>
  C8. Identifiers are assigned as the current maximum plus one, or 1 on an empty table,
  for users from the \<open>users\<close> table alone and for tweets from the \<open>tweets\<close> table
  alone; a registration that succeeds stores the new user under that id, and a tweet
  that is posted is stored under that tweet id.
\<close>

theorem id_assignment_max_plus_one:
  "(users d = [] \<longrightarrow> new_usr d = 1) \<and>
   (users d \<noteq> [] \<longrightarrow> new_usr d = Max (usr ` set (users d)) + 1) \<and>
   (tweets d = [] \<longrightarrow> get_new_tid d = 1) \<and>
   (tweets d \<noteq> [] \<longrightarrow> get_new_tid d = Max (tid ` set (tweets d)) + 1) \<and>
   (sign_up d nm em ph pw = (d', RegistrationSuccessful n) \<longrightarrow>
      n = new_usr d \<and>
      users d' = users d @ [\<lparr>usr = new_usr d, name = nm, email = em, phone = ph, pwd = pw\<rparr>]) \<and>
   (compose_tweet ok d u dt tm line = (d'', TweetPosted) \<longrightarrow>
      tweets d'' = tweets d @ [\<lparr>tid = get_new_tid d, writer_id = int_affinity u, tweet_text = strip line,
                                 tdate = dt, ttime = tm, replyto_tid = None\<rparr>])"
proof (intro conjI impI)
  show "new_usr d = 1" if "users d = []"
    using that by (simp add: new_usr_def)
  show "new_usr d = Max (usr ` set (users d)) + 1" if "users d \<noteq> []"
    using that sql_max_Some [of "map usr (users d)"] by (simp add: new_usr_def)
  show "get_new_tid d = 1" if "tweets d = []"
    using that by (simp add: get_new_tid_def)
  show "get_new_tid d = Max (tid ` set (tweets d)) + 1" if "tweets d \<noteq> []"
    using that sql_max_Some [of "map tid (tweets d)"] by (simp add: get_new_tid_def)
  show "n = new_usr d" if "sign_up d nm em ph pw = (d', RegistrationSuccessful n)"
    using that by (auto simp: sign_up_def Let_def split: if_splits)
  show "users d' = users d @ [\<lparr>usr = new_usr d, name = nm, email = em, phone = ph, pwd = pw\<rparr>]"
    if "sign_up d nm em ph pw = (d', RegistrationSuccessful n)"
    using that by (auto simp: sign_up_def Let_def split: if_splits)
  show "tweets d'' = tweets d @ [\<lparr>tid = get_new_tid d, writer_id = int_affinity u, tweet_text = strip line,
                                 tdate = dt, ttime = tm, replyto_tid = None\<rparr>]"
    if "compose_tweet ok d u dt tm line = (d'', TweetPosted)"
    using compose_tweet_posted [OF that] by (simp add: posted_def)
qed

theorem id_assignment_max_plus_one_witness:
  "users empty_db = [] \<and> new_usr empty_db = 1 \<and>
   tweets empty_db = [] \<and> get_new_tid empty_db = 1 \<and>
   users three_users \<noteq> [] \<and> Max (usr ` set (users three_users)) = 7 \<and> new_usr three_users = 8 \<and>
   tweets three_users \<noteq> [] \<and> Max (tid ` set (tweets three_users)) = 4 \<and> get_new_tid three_users = 5 \<and>
   fst (sign_up three_users ''Di'' ''di@x.org'' ''4'' ''d'') =
     three_users\<lparr>users := users three_users @
       [\<lparr>usr = 8, name = ''Di'', email = ''di@x.org'', phone = ''4'', pwd = ''d''\<rparr>]\<rparr> \<and>
   snd (sign_up three_users ''Di'' ''di@x.org'' ''4'' ''d'') = RegistrationSuccessful 8 \<and>
   snd (compose_tweet (\<lambda>_. True) three_users ''7'' ''2024-03-02'' ''10:00:00'' ''hi'') = TweetPosted \<and>
   map tid (tweets (fst (compose_tweet (\<lambda>_. True) three_users ''7'' ''2024-03-02'' ''10:00:00'' ''hi''))) = [4, 5]"
proof -
  have e: "users empty_db = []" "tweets empty_db = []"
    by (simp_all add: empty_db_def)
  have t: "users three_users \<noteq> []" "tweets three_users \<noteq> []"
    "Max (usr ` set (users three_users)) = 7" "Max (tid ` set (tweets three_users)) = 4"
    by (simp_all add: three_users_def empty_db_def)
  have s: "sign_up three_users ''Di'' ''di@x.org'' ''4'' ''d'' =
     (three_users\<lparr>users := users three_users @
       [\<lparr>usr = new_usr three_users, name = ''Di'', email = ''di@x.org'', phone = ''4'', pwd = ''d''\<rparr>]\<rparr>,
      RegistrationSuccessful (new_usr three_users))"
    by (simp add: sign_up_def Let_def three_users_def empty_db_def)
  have c: "compose_tweet (\<lambda>_. True) three_users ''7'' ''2024-03-02'' ''10:00:00'' ''hi'' =
     (posted three_users ''7'' ''2024-03-02'' ''10:00:00'' ''hi'' [], TweetPosted)"
    by (simp add: compose_tweet_def strip_def is_space_def lower_def lower_char_def posted_def
        with_connection_def then_do_def execute_def commit_def Let_def insert_tweet_def)
  note a = id_assignment_max_plus_one [where d = empty_db]
  note b = id_assignment_max_plus_one [where d = three_users and nm = "''Di''"
      and em = "''di@x.org''" and ph = "''4''" and pw = "''d''"
      and d' = "three_users\<lparr>users := users three_users @
       [\<lparr>usr = new_usr three_users, name = ''Di'', email = ''di@x.org'', phone = ''4'', pwd = ''d''\<rparr>]\<rparr>"
      and n = "new_usr three_users"
      and ok = "\<lambda>_. True" and u = "''7''" and dt = "''2024-03-02''" and tm = "''10:00:00''"
      and line = "''hi''" and d'' = "posted three_users ''7'' ''2024-03-02'' ''10:00:00'' ''hi'' []"]
  have n8: "new_usr three_users = 8" and t5: "get_new_tid three_users = 5"
    using b t by simp_all
  have n1: "new_usr empty_db = 1" and t1: "get_new_tid empty_db = 1"
    using a e by simp_all
  have tw: "tweets (posted three_users ''7'' ''2024-03-02'' ''10:00:00'' ''hi'' []) =
      tweets three_users @ [\<lparr>tid = get_new_tid three_users, writer_id = int_affinity ''7'', tweet_text = strip ''hi'',
                                 tdate = ''2024-03-02'', ttime = ''10:00:00'', replyto_tid = None\<rparr>]"
    using b c by simp
  have tids: "map tid (tweets three_users) = [4]"
    by (simp add: three_users_def empty_db_def)
  show ?thesis
    using e t n8 t5 n1 t1 by (simp add: s c tw tids)
qed


section \<open>Composing a tweet: the claims\<close>

text \<open>
  C9. Composing a tweet is atomic with respect to storage failure: whichever statement
  of the sequence the store fails (the read of the maximum, the insert of the tweet, an
  insert of a hashtag, the commit), the call reports a database error and the store is
  left exactly as it was; a tweet row is stored only together with all of its hashtag
  rows.
\<close>

theorem compose_tweet_atomic:
  assumes "compose_tweet ok d u dt tm line = (d', out)"
  shows "((\<exists>j < 3 + length (findall_hashtags (lower (strip line))). \<not> ok j) \<longrightarrow>
            out \<noteq> TweetPosted \<and> d' = d) \<and>
         (out \<noteq> TweetPosted \<longrightarrow> d' = d) \<and>
         (out = TweetPosted \<longrightarrow>
            d' = posted d u dt tm (strip line) (findall_hashtags (lower (strip line)))) \<and>
         (tweets d' \<noteq> tweets d \<longrightarrow>
            hashtag_mentions d' = hashtag_mentions d @
              map (\<lambda>h. \<lparr>hm_tid = get_new_tid d, hterm = drop 1 h\<rparr>)
                  (findall_hashtags (lower (strip line))))"
proof -
  let ?hs = "findall_hashtags (lower (strip line))"
  have np: "d' = d" if "out \<noteq> TweetPosted"
    using compose_tweet_not_posted [OF assms that] .
  have p: "(\<forall>j < 3 + length ?hs. ok j) \<and> d' = posted d u dt tm (strip line) ?hs"
    if "out = TweetPosted"
    using compose_tweet_posted [of ok d u dt tm line d'] assms that by simp
  have fail: "out \<noteq> TweetPosted" if "\<exists>j < 3 + length ?hs. \<not> ok j"
    using p that by blast
  have rows: "hashtag_mentions d' = hashtag_mentions d @
      map (\<lambda>h. \<lparr>hm_tid = get_new_tid d, hterm = drop 1 h\<rparr>) ?hs" if "tweets d' \<noteq> tweets d"
  proof (cases "out = TweetPosted")
    case True
    with p show ?thesis by (simp add: posted_def)
  next
    case False
    with np that show ?thesis by simp
  qed
  show ?thesis using np p fail rows by blast
qed

theorem compose_tweet_atomic_witness:
  "compose_tweet (\<lambda>i. i \<noteq> 3) three_users ''7'' ''2024-03-02'' ''10:00:00'' ''hi #go #rust''
     = (three_users, DatabaseError) \<and>
   (\<exists>j < 3 + length (findall_hashtags (lower (strip ''hi #go #rust''))). \<not> (j \<noteq> 3)) \<and>
   DatabaseError \<noteq> TweetPosted \<and>
   compose_tweet (\<lambda>i. True) three_users ''7'' ''2024-03-02'' ''10:00:00'' ''hi #go #rust''
     = (posted three_users ''7'' ''2024-03-02'' ''10:00:00'' ''hi #go #rust'' [''#go'', ''#rust''],
        TweetPosted) \<and>
   tweets (posted three_users ''7'' ''2024-03-02'' ''10:00:00'' ''hi #go #rust'' [''#go'', ''#rust''])
     \<noteq> tweets three_users \<and>
   hashtag_mentions (posted three_users ''7'' ''2024-03-02'' ''10:00:00'' ''hi #go #rust'' [''#go'', ''#rust''])
     = [\<lparr>hm_tid = 5, hterm = ''go''\<rparr>, \<lparr>hm_tid = 5, hterm = ''rust''\<rparr>]"
proof -
  have st: "strip ''hi #go #rust'' = ''hi #go #rust''"
    by (simp add: strip_def is_space_def)
  have hs: "findall_hashtags (lower ''hi #go #rust'') = [''#go'', ''#rust'']"
    by (simp add: lower_def lower_char_def is_word_char_def)
  have f: "compose_tweet (\<lambda>i. i \<noteq> 3) three_users ''7'' ''2024-03-02'' ''10:00:00'' ''hi #go #rust''
     = (three_users, DatabaseError)"
    by (simp add: compose_tweet_def hs st Let_def with_connection_def then_do_def execute_def
        commit_def rollback_def)
  have g: "compose_tweet (\<lambda>i. True) three_users ''7'' ''2024-03-02'' ''10:00:00'' ''hi #go #rust''
     = (posted three_users ''7'' ''2024-03-02'' ''10:00:00'' ''hi #go #rust'' [''#go'', ''#rust''],
        TweetPosted)"
    by (simp add: compose_tweet_def hs st Let_def with_connection_def then_do_def execute_def
        commit_def posted_def insert_tweet_def insert_hashtag_mention_def)
  have j: "\<exists>j < 3 + length (findall_hashtags (lower (strip ''hi #go #rust''))). \<not> (j \<noteq> 3)"
    by (simp add: st hs)
  have t5: "get_new_tid three_users = 5"
    by (simp add: get_new_tid_def three_users_def empty_db_def)
  have tw: "tweets (posted three_users ''7'' ''2024-03-02'' ''10:00:00'' ''hi #go #rust'' [''#go'', ''#rust''])
     \<noteq> tweets three_users"
    by (simp add: posted_def)
  have hm: "hashtag_mentions three_users = []"
    by (simp add: three_users_def empty_db_def)
  from compose_tweet_atomic [OF f] j compose_tweet_atomic [OF g] tw
  show ?thesis using f g by (simp add: st hs t5 hm)
qed



section \<open>Properties of the feed query\<close>

lemma mset_order_by_desc: "mset (order_by_desc rows) = mset rows"
  by (simp add: order_by_desc_def)

lemma set_order_by_desc: "set (order_by_desc rows) = set rows"
  by (simp add: order_by_desc_def)

lemma sorted_order_by_desc:
  "sorted (rev (map (\<lambda>e. (row_tdate e, row_ttime e)) (order_by_desc rows)))"
  by (simp add: order_by_desc_def rev_map)

lemma concat_pages: "concat (map (\<lambda>k. take 5 (drop (5 * k) xs)) [0..<n]) = take (5 * n) xs"
proof (induction n)
  case 0
  show ?case by simp
next
  case (Suc n)
  have "take (5 * n + 5) xs = take (5 * n) xs @ take 5 (drop (5 * n) xs)"
    by (rule take_add)
  moreover have "5 * Suc n = 5 * n + 5" by simp
  ultimately have "take (5 * Suc n) xs = take (5 * n) xs @ take 5 (drop (5 * n) xs)"
    by (simp only:)
  with Suc show ?case by simp
qed

lemma in_feed_retweets:
  "e \<in> set (feed_retweets d u) \<longleftrightarrow>
     (\<exists>r \<in> set (retweets d). \<exists>t \<in> set (tweets d).
        rt_tid r = tid t \<and> retweeter_id r \<in> set (followees d u) \<and> spam r = 0 \<and>
        e = \<lparr>row_type = ''retweet'', row_tid = rt_tid r, row_tdate = rdate r, row_ttime = [],
             row_spam = spam r, row_text = tweet_text t\<rparr>)"
proof
  assume "e \<in> set (feed_retweets d u)"
  then obtain r t where "r \<in> set (retweets d)" "t \<in> set (tweets d)" "rt_tid r = tid t"
    "retweeter_id r \<in> set (followees d u)" "spam r = 0"
    "e = \<lparr>row_type = ''retweet'', row_tid = rt_tid r, row_tdate = rdate r, row_ttime = [],
             row_spam = spam r, row_text = tweet_text t\<rparr>"
    by (auto simp: feed_retweets_def split: if_splits)
  then show "\<exists>r \<in> set (retweets d). \<exists>t \<in> set (tweets d).
        rt_tid r = tid t \<and> retweeter_id r \<in> set (followees d u) \<and> spam r = 0 \<and>
        e = \<lparr>row_type = ''retweet'', row_tid = rt_tid r, row_tdate = rdate r, row_ttime = [],
             row_spam = spam r, row_text = tweet_text t\<rparr>"
    by blast
next
  assume "\<exists>r \<in> set (retweets d). \<exists>t \<in> set (tweets d).
        rt_tid r = tid t \<and> retweeter_id r \<in> set (followees d u) \<and> spam r = 0 \<and>
        e = \<lparr>row_type = ''retweet'', row_tid = rt_tid r, row_tdate = rdate r, row_ttime = [],
             row_spam = spam r, row_text = tweet_text t\<rparr>"
  then show "e \<in> set (feed_retweets d u)"
    by (force simp: feed_retweets_def)
qed

lemma sorted_desc_nth:
  assumes "sorted (rev (map f xs))" and "i < j" and "j < length xs"
  shows "f (xs ! j) \<le> f (xs ! i)"
proof -
  let ?n = "length xs"
  have "rev (map f xs) ! (?n - 1 - j) \<le> rev (map f xs) ! (?n - 1 - i)"
    using assms by (intro sorted_nth_mono) auto
  moreover have "rev (map f xs) ! (?n - 1 - j) = f (xs ! j)"
    using assms by (simp add: rev_nth)
  moreover have "rev (map f xs) ! (?n - 1 - i) = f (xs ! i)"
    using assms by (simp add: rev_nth)
  ultimately show ?thesis by simp
qed


lemma in_feed_tweets:
  "e \<in> set (feed_tweets d u) \<longleftrightarrow>
     (\<exists>t \<in> set (tweets d). writer_id t \<in> set (followees d u) \<and>
        e = \<lparr>row_type = ''tweet'', row_tid = tid t, row_tdate = tdate t, row_ttime = ttime t,
             row_spam = 0, row_text = tweet_text t\<rparr>)"
  by (auto simp: feed_tweets_def)

lemma in_followees:
  "v \<in> set (followees d u) \<longleftrightarrow>
     (\<exists>f \<in> set (follows d). flwer f = int_affinity u \<and> v = SInt (flwee f))"
  by (auto simp: followees_def)

lemma set_feed: "set (feed d u) = set (feed_tweets d u) \<union> set (feed_retweets d u)"
  by (simp add: feed_def set_order_by_desc)

lemma feed_retweet_rows:
  assumes "e \<in> set (feed d u)" and "row_type e = ''retweet''"
  shows "row_ttime e = [] \<and> row_spam e = 0"
proof -
  from assms(1) have "e \<in> set (feed_tweets d u) \<or> e \<in> set (feed_retweets d u)"
    by (simp add: set_feed)
  then show ?thesis
  proof
    assume "e \<in> set (feed_tweets d u)"
    then have "row_type e = ''tweet''" by (auto simp: in_feed_tweets)
    with assms(2) show ?thesis by simp
  next
    assume "e \<in> set (feed_retweets d u)"
    then show ?thesis by (auto simp: in_feed_retweets)
  qed
qed

lemma feed_query_Nil: "feed_query d u offset = [] \<longleftrightarrow> length (feed d u) \<le> offset"
  by (auto simp: feed_query_def)

lemma feed_query_last:
  "length (feed d u) \<le> offset + 5 \<Longrightarrow> feed_query d u offset = drop offset (feed d u)"
  by (simp add: feed_query_def)

lemma feed_query_next:
  "feed_query d u offset @ drop (offset + 5) (feed d u) = drop offset (feed d u)"
proof -
  have "take 5 (drop offset (feed d u)) @ drop 5 (drop offset (feed d u)) = drop offset (feed d u)"
    by (rule append_take_drop_id)
  then show ?thesis by (simp add: feed_query_def add.commute)
qed

lemma show_feed_from_all_next:
  assumes "\<forall>l \<in> set inputs. lower (strip l) = ''n''"
    and "length (feed d u) \<le> offset + 5 * (length inputs + 1)"
  shows "concat (show_feed_from d u offset inputs) = drop offset (feed d u)"
  using assms
proof (induction inputs arbitrary: offset)
  case Nil
  then have "length (feed d u) \<le> offset + 5" by simp
  then show ?case
    by (simp add: feed_query_Nil feed_query_last show_feed_from.simps [of d u offset "[]"])
next
  case (Cons l rest)
  have l: "lower (strip l) = ''n''" using Cons.prems(1) by simp
  have dw: "dropWhile (\<lambda>l. lower (strip l) \<notin> {''n'', ''b'', ''q''}) (l # rest) = l # rest"
    using l by simp
  show ?case
  proof (cases "length (feed d u) \<le> offset")
    case True
    then have "concat (show_feed_from d u offset (l # rest)) = []"
      by (simp add: show_feed_from.simps [of d u offset "l # rest"] feed_query_Nil)
    with True show ?thesis by simp
  next
    case False
    then have ne0: "feed d u \<noteq> []" by auto
    show ?thesis
    proof (cases "length (feed d u) \<le> offset + 5")
      case True
      then show ?thesis using False ne0
        by (simp add: show_feed_from.simps [of d u offset "l # rest"] feed_query_Nil
            feed_query_last)
    next
      case more: False
      have "length (feed d u) \<le> (offset + 5) + 5 * (length rest + 1)"
        using Cons.prems(2) by simp
      with Cons.IH [of "offset + 5"] Cons.prems(1)
      have IH: "concat (show_feed_from d u (offset + 5) rest) = drop (offset + 5) (feed d u)"
        by simp
      have "show_feed_from d u offset (l # rest) =
              feed_query d u offset # show_feed_from d u (offset + 5) rest"
        using False ne0 more l
        by (simp add: show_feed_from.simps [of d u offset "l # rest"] feed_query_Nil)
      then show ?thesis using IH feed_query_next [of d u offset] by simp
    qed
  qed
qed

section \<open>The feed: the claims\<close>

lemma feed_small_net:
  "feed small_net ''1'' =
     [\<lparr>row_type = ''tweet'', row_tid = 15, row_tdate = ''2024-03-05'', row_ttime = ''07:00:00'',
       row_spam = 0, row_text = ''f''\<rparr>,
      \<lparr>row_type = ''tweet'', row_tid = 14, row_tdate = ''2024-03-04'', row_ttime = ''07:00:00'',
       row_spam = 0, row_text = ''e''\<rparr>,
      \<lparr>row_type = ''tweet'', row_tid = 13, row_tdate = ''2024-03-03'', row_ttime = ''07:00:00'',
       row_spam = 0, row_text = ''d''\<rparr>,
      \<lparr>row_type = ''tweet'', row_tid = 11, row_tdate = ''2024-03-02'', row_ttime = ''10:00:00'',
       row_spam = 0, row_text = ''b''\<rparr>,
      \<lparr>row_type = ''tweet'', row_tid = 12, row_tdate = ''2024-03-02'', row_ttime = ''08:30:00'',
       row_spam = 0, row_text = ''c''\<rparr>,
      \<lparr>row_type = ''retweet'', row_tid = 20, row_tdate = ''2024-03-02'', row_ttime = [],
       row_spam = 0, row_text = ''g''\<rparr>,
      \<lparr>row_type = ''tweet'', row_tid = 10, row_tdate = ''2024-03-01'', row_ttime = ''09:00:00'',
       row_spam = 0, row_text = ''a''\<rparr>]"
  by (simp add: feed_def order_by_desc_def feed_tweets_def feed_retweets_def followees_def
      small_net_def empty_db_def int_affinity_def isdigit_def nat_of_digits_def digit_value_def)

text \<open>
  C1. For every viewer, an entry is in the feed exactly when it is the row of a tweet
  written by a user the viewer follows, or the row of a retweet that is not flagged as
  spam, made by a user the viewer follows, of a stored tweet: that row carries the text
  of the tweet, the date of the retweet and an empty time. No row of a retweet in the
  feed has a spam flag other than 0.
\<close>

theorem feed_contents:
  "(e \<in> set (feed d u) \<longleftrightarrow>
      (\<exists>t \<in> set (tweets d). \<exists>f \<in> set (follows d).
          flwer f = int_affinity u \<and> writer_id t = SInt (flwee f) \<and>
          e = \<lparr>row_type = ''tweet'', row_tid = tid t, row_tdate = tdate t, row_ttime = ttime t,
               row_spam = 0, row_text = tweet_text t\<rparr>) \<or>
      (\<exists>r \<in> set (retweets d). \<exists>t \<in> set (tweets d). \<exists>f \<in> set (follows d).
          flwer f = int_affinity u \<and> retweeter_id r = SInt (flwee f) \<and>
          rt_tid r = tid t \<and> spam r = 0 \<and>
          e = \<lparr>row_type = ''retweet'', row_tid = rt_tid r, row_tdate = rdate r, row_ttime = [],
               row_spam = spam r, row_text = tweet_text t\<rparr>)) \<and>
   (e \<in> set (feed d u) \<and> row_type e = ''retweet'' \<longrightarrow> row_spam e = 0 \<and> row_ttime e = [])"
proof (intro conjI)
  show "e \<in> set (feed d u) \<longleftrightarrow>
      (\<exists>t \<in> set (tweets d). \<exists>f \<in> set (follows d).
          flwer f = int_affinity u \<and> writer_id t = SInt (flwee f) \<and>
          e = \<lparr>row_type = ''tweet'', row_tid = tid t, row_tdate = tdate t, row_ttime = ttime t,
               row_spam = 0, row_text = tweet_text t\<rparr>) \<or>
      (\<exists>r \<in> set (retweets d). \<exists>t \<in> set (tweets d). \<exists>f \<in> set (follows d).
          flwer f = int_affinity u \<and> retweeter_id r = SInt (flwee f) \<and>
          rt_tid r = tid t \<and> spam r = 0 \<and>
          e = \<lparr>row_type = ''retweet'', row_tid = rt_tid r, row_tdate = rdate r, row_ttime = [],
               row_spam = spam r, row_text = tweet_text t\<rparr>)"
    unfolding set_feed Un_iff in_feed_tweets in_feed_retweets in_followees by blast
  show "e \<in> set (feed d u) \<and> row_type e = ''retweet'' \<longrightarrow> row_spam e = 0 \<and> row_ttime e = []"
    using feed_retweet_rows [of e d u] by blast
qed

theorem feed_contents_witness:
  "\<lparr>row_type = ''retweet'', row_tid = 20, row_tdate = ''2024-03-02'', row_ttime = [],
    row_spam = 0, row_text = ''g''\<rparr> \<in> set (feed small_net ''1'') \<and>
   \<lparr>row_type = ''tweet'', row_tid = 12, row_tdate = ''2024-03-02'', row_ttime = ''08:30:00'',
    row_spam = 0, row_text = ''c''\<rparr> \<in> set (feed small_net ''1'') \<and>
   \<lparr>row_type = ''retweet'', row_tid = 21, row_tdate = ''2024-03-06'', row_ttime = [],
    row_spam = 1, row_text = ''h''\<rparr> \<notin> set (feed small_net ''1'') \<and>
   \<lparr>row_type = ''tweet'', row_tid = 20, row_tdate = ''2024-02-01'', row_ttime = ''12:00:00'',
    row_spam = 0, row_text = ''g''\<rparr> \<notin> set (feed small_net ''1'')"
proof -
  have a: "int_affinity ''1'' = SInt 1"
    by (simp add: int_affinity_def isdigit_def nat_of_digits_def digit_value_def)
  note t = feed_contents [where d = small_net and u = "''1''", unfolded a]
  have "\<lparr>row_type = ''retweet'', row_tid = 20, row_tdate = ''2024-03-02'', row_ttime = [],
    row_spam = 0, row_text = ''g''\<rparr> \<in> set (feed small_net ''1'')"
    using t [THEN conjunct1, of "\<lparr>row_type = ''retweet'', row_tid = 20, row_tdate = ''2024-03-02'',
      row_ttime = [], row_spam = 0, row_text = ''g''\<rparr>"]
    by (simp add: small_net_def empty_db_def)
  moreover have "\<lparr>row_type = ''tweet'', row_tid = 12, row_tdate = ''2024-03-02'',
    row_ttime = ''08:30:00'', row_spam = 0, row_text = ''c''\<rparr> \<in> set (feed small_net ''1'')"
    using t [THEN conjunct1, of "\<lparr>row_type = ''tweet'', row_tid = 12, row_tdate = ''2024-03-02'',
      row_ttime = ''08:30:00'', row_spam = 0, row_text = ''c''\<rparr>"]
    by (simp add: small_net_def empty_db_def)
  moreover have "\<lparr>row_type = ''retweet'', row_tid = 21, row_tdate = ''2024-03-06'', row_ttime = [],
    row_spam = 1, row_text = ''h''\<rparr> \<notin> set (feed small_net ''1'')"
    using t [THEN conjunct2, of "\<lparr>row_type = ''retweet'', row_tid = 21, row_tdate = ''2024-03-06'',
      row_ttime = [], row_spam = 1, row_text = ''h''\<rparr>"]
    by auto
  moreover have "\<lparr>row_type = ''tweet'', row_tid = 20, row_tdate = ''2024-02-01'',
    row_ttime = ''12:00:00'', row_spam = 0, row_text = ''g''\<rparr> \<notin> set (feed small_net ''1'')"
    using t [THEN conjunct1, of "\<lparr>row_type = ''tweet'', row_tid = 20, row_tdate = ''2024-02-01'',
      row_ttime = ''12:00:00'', row_spam = 0, row_text = ''g''\<rparr>"]
    by (simp add: small_net_def empty_db_def)
  ultimately show ?thesis by blast
qed

lemma feed_sorted: "sorted (rev (map (\<lambda>e. (row_tdate e, row_ttime e)) (feed d u)))"
  unfolding feed_def by (rule sorted_order_by_desc)

text \<open>
  C2. The feed is ordered by date descending and then by time descending: of two
  entries, the later one has an earlier date, or the same date and a time that is not
  greater. On a date tie an entry of a retweet, whose time is empty, never stands before
  an entry with a time: the empty time is the least time. Every page shows its slice of
  the feed in the feed's order.
\<close>

theorem feed_order:
  assumes "i < j" and "j < length (feed d u)"
  shows "(row_tdate (feed d u ! j) < row_tdate (feed d u ! i) \<or>
          row_tdate (feed d u ! j) = row_tdate (feed d u ! i) \<and>
          row_ttime (feed d u ! j) \<le> row_ttime (feed d u ! i)) \<and>
         (row_tdate (feed d u ! i) = row_tdate (feed d u ! j) \<and> row_ttime (feed d u ! j) \<noteq> []
            \<longrightarrow> row_type (feed d u ! i) \<noteq> ''retweet'') \<and>
         (\<forall>k < length (feed_query d u offset).
            feed_query d u offset ! k = feed d u ! (offset + k))"
proof (intro conjI)
  let ?xs = "feed d u"
  have key: "(row_tdate (?xs ! j), row_ttime (?xs ! j)) \<le> (row_tdate (?xs ! i), row_ttime (?xs ! i))"
    using sorted_desc_nth [OF feed_sorted assms] .
  then show ord: "row_tdate (?xs ! j) < row_tdate (?xs ! i) \<or>
          row_tdate (?xs ! j) = row_tdate (?xs ! i) \<and> row_ttime (?xs ! j) \<le> row_ttime (?xs ! i)"
    by (auto simp: less_eq_prod_def)
  show "row_tdate (?xs ! i) = row_tdate (?xs ! j) \<and> row_ttime (?xs ! j) \<noteq> []
            \<longrightarrow> row_type (?xs ! i) \<noteq> ''retweet''"
  proof (intro impI notI)
    assume h: "row_tdate (?xs ! i) = row_tdate (?xs ! j) \<and> row_ttime (?xs ! j) \<noteq> []"
      and rt: "row_type (?xs ! i) = ''retweet''"
    have "?xs ! i \<in> set ?xs" using assms by simp
    from feed_retweet_rows [OF this rt] have "row_ttime (?xs ! i) = []" by simp
    with ord h have "row_ttime (?xs ! j) \<le> []" by auto
    then have "row_ttime (?xs ! j) = []" by simp
    with h show False by simp
  qed
  show "\<forall>k < length (feed_query d u offset). feed_query d u offset ! k = ?xs ! (offset + k)"
  proof (intro allI impI)
    fix k assume "k < length (feed_query d u offset)"
    then have "k < 5" and "offset \<le> length ?xs"
      by (auto simp: feed_query_def)
    then show "feed_query d u offset ! k = ?xs ! (offset + k)"
      by (simp add: feed_query_def nth_drop)
  qed
qed

theorem feed_order_witness:
  "(4::nat) < 5 \<and> 5 < length (feed small_net ''1'') \<and>
   row_type (feed small_net ''1'' ! 5) = ''retweet'' \<and>
   row_tdate (feed small_net ''1'' ! 5) = row_tdate (feed small_net ''1'' ! 4) \<and>
   row_ttime (feed small_net ''1'' ! 5) \<le> row_ttime (feed small_net ''1'' ! 4) \<and>
   row_ttime (feed small_net ''1'' ! 4) \<noteq> [] \<and>
   (3::nat) < 4 \<and>
   row_tdate (feed small_net ''1'' ! 3) = row_tdate (feed small_net ''1'' ! 4) \<and>
   row_type (feed small_net ''1'' ! 3) \<noteq> ''retweet'' \<and>
   (5::nat) < 6 \<and> row_tdate (feed small_net ''1'' ! 6) < row_tdate (feed small_net ''1'' ! 5) \<and>
   feed_query small_net ''1'' 5 ! 1 = feed small_net ''1'' ! 6"
proof -
  have len: "length (feed small_net ''1'') = 7" by (simp add: feed_small_net)
  have p: "length (feed_query small_net ''1'' 5) = 2" by (simp add: feed_query_def len)
  have a: "(4::nat) < 5" and b: "5 < length (feed small_net ''1'')"
    and c: "(5::nat) < 6" and e: "6 < length (feed small_net ''1'')"
    and f: "(3::nat) < 4" and g: "4 < length (feed small_net ''1'')"
    by (simp_all add: len)
  note t45 = feed_order [OF a b, of 5]
  note t56 = feed_order [OF c e, of 5]
  note t34 = feed_order [OF f g, of 5]
  have d5: "row_tdate (feed small_net ''1'' ! 5) = ''2024-03-02''"
    and d4: "row_tdate (feed small_net ''1'' ! 4) = ''2024-03-02''"
    and d3: "row_tdate (feed small_net ''1'' ! 3) = ''2024-03-02''"
    and d6: "row_tdate (feed small_net ''1'' ! 6) = ''2024-03-01''"
    and ty: "row_type (feed small_net ''1'' ! 5) = ''retweet''"
    and t4: "row_ttime (feed small_net ''1'' ! 4) \<noteq> []"
    by (simp_all add: feed_small_net)
  have "row_ttime (feed small_net ''1'' ! 5) \<le> row_ttime (feed small_net ''1'' ! 4)"
    using t45 d4 d5 by simp
  moreover have "row_tdate (feed small_net ''1'' ! 6) < row_tdate (feed small_net ''1'' ! 5)"
    using t56 d5 d6 by simp
  moreover have "feed_query small_net ''1'' 5 ! 1 = feed small_net ''1'' ! 6"
    using t56 p by simp
  moreover have "row_type (feed small_net ''1'' ! 3) \<noteq> ''retweet''"
    using t34 d3 d4 t4 by simp
  ultimately show ?thesis using a b c f d3 d4 d5 ty t4 by simp
qed

text \<open>
  C7. For a fixed store and viewer, the pages that the feed loop prints while the user
  asks for the next page each time, which are the results of the query at offsets
  0, 5, 10, ..., put one after the other are the whole feed: every eligible row, the
  rows of the followed users' tweets and non-spam retweets, exactly as often as the
  query yields it, and no row on two pages.
\<close>

theorem feed_pages_exhaustive:
  assumes "\<forall>l \<in> set inputs. lower (strip l) = ''n''"
    and "length (feed d u) \<le> 5 * (length inputs + 1)"
  shows "concat (show_feed d u inputs) = feed d u \<and>
         concat (map (\<lambda>k. feed_query d u (5 * k)) [0..<length inputs + 1]) = feed d u \<and>
         mset (feed d u) = mset (feed_tweets d u) + mset (feed_retweets d u)"
proof (intro conjI)
  show "concat (show_feed d u inputs) = feed d u"
    using show_feed_from_all_next [OF assms(1), of d u 0] assms(2)
    by (simp add: show_feed_def)
  have "concat (map (\<lambda>k. feed_query d u (5 * k)) [0..<length inputs + 1]) =
        take (5 * (length inputs + 1)) (feed d u)"
    unfolding feed_query_def by (rule concat_pages)
  then show "concat (map (\<lambda>k. feed_query d u (5 * k)) [0..<length inputs + 1]) = feed d u"
    using assms(2) by simp
  show "mset (feed d u) = mset (feed_tweets d u) + mset (feed_retweets d u)"
    by (simp add: feed_def mset_order_by_desc)
qed

theorem feed_pages_exhaustive_witness:
  "lower (strip ''n'') = ''n'' \<and>
   length (feed small_net ''1'') \<le> 5 * (length [''n''] + 1) \<and>
   concat (show_feed small_net ''1'' [''n'']) = feed small_net ''1'' \<and>
   map (map row_tid) (show_feed small_net ''1'' [''n'']) = [[15, 14, 13, 11, 12], [20, 10]] \<and>
   feed_query small_net ''1'' 0 @ feed_query small_net ''1'' 5 = feed small_net ''1''"
proof -
  have n: "lower (strip ''n'') = ''n''"
    by (simp add: strip_def is_space_def lower_def lower_char_def)
  have a: "\<forall>l \<in> set [''n'']. lower (strip l) = ''n''" using n by simp
  have b: "length (feed small_net ''1'') \<le> 5 * (length [''n''] + 1)"
    by (simp add: feed_small_net)
  note t = feed_pages_exhaustive [OF a b]
  have q0: "feed_query small_net ''1'' 0 = take 5 (feed small_net ''1'')"
    and q5: "feed_query small_net ''1'' 5 = drop 5 (feed small_net ''1'')"
    and q10: "feed_query small_net ''1'' 10 = []"
    by (simp_all add: feed_query_def feed_small_net)
  have pages: "show_feed small_net ''1'' [''n''] =
      [feed_query small_net ''1'' 0, feed_query small_net ''1'' 5]"
    unfolding show_feed_def
    by (simp add: show_feed_from.simps [of small_net "''1''" 0]
        show_feed_from.simps [of small_net "''1''" 5] n q10)
      (simp add: q0 q5 feed_small_net)
  have "feed_query small_net ''1'' 0 @ feed_query small_net ''1'' 5 = feed small_net ''1''"
    using t by (simp add: pages)
  moreover have "map (map row_tid) (show_feed small_net ''1'' [''n'']) = [[15, 14, 13, 11, 12], [20, 10]]"
    by (simp add: pages q0 q5 feed_small_net)
  ultimately show ?thesis using n b t by blast
qed

section \<open>Retweeting: the claim\<close>

lemma int_affinity_digits [simp]:
  "int_affinity ''1'' = SInt 1" "int_affinity ''2'' = SInt 2" "int_affinity ''3'' = SInt 3"
  "int_affinity ''7'' = SInt 7"
  "int_affinity ''007'' = SInt 7"
  by (simp_all add: int_affinity_def isdigit_def nat_of_digits_def digit_value_def)

text \<open>The cases of \<open>retweet\<close> in the order of its tests, on any store.\<close>

lemma retweet_cases:
  "((\<exists>r \<in> set (retweets d). rt_tid r = t \<and> retweeter_id r = int_affinity u) \<longrightarrow>
      retweet d today t u = (d, AlreadyRetweeted)) \<and>
   (\<not> (\<exists>r \<in> set (retweets d). rt_tid r = t \<and> retweeter_id r = int_affinity u) \<and>
    t \<notin> tid ` set (tweets d) \<longrightarrow>
      retweet d today t u = (d, TweetNotFound t)) \<and>
   (\<not> (\<exists>r \<in> set (retweets d). rt_tid r = t \<and> retweeter_id r = int_affinity u) \<and>
    t \<in> tid ` set (tweets d) \<longrightarrow>
      (\<exists>tw \<in> set (tweets d). tid tw = t \<and>
         retweet d today t u =
           (d\<lparr>retweets := retweets d @
                [\<lparr>rt_tid = t, retweeter_id = int_affinity u, rt_writer_id = writer_id tw,
                  spam = 0, rdate = today\<rparr>]\<rparr>,
            RetweetPosted)) \<and>
      retweet_count (fst (retweet d today t u)) t = retweet_count d t + 1 \<and>
      retweet (fst (retweet d today t u)) later t u =
        (fst (retweet d today t u), AlreadyRetweeted))"
proof (intro conjI impI)
  let ?dup = "\<exists>r \<in> set (retweets d). rt_tid r = t \<and> retweeter_id r = int_affinity u"
  have cnt: "length (filter (\<lambda>r. rt_tid r = t \<and> retweeter_id r = int_affinity u) (retweets d)) > 0
      \<longleftrightarrow> ?dup"
    by (auto simp: filter_empty_conv)
  show "retweet d today t u = (d, AlreadyRetweeted)" if "?dup"
    using that cnt by (simp add: retweet_def)
  show "retweet d today t u = (d, TweetNotFound t)" if "\<not> ?dup \<and> t \<notin> tid ` set (tweets d)"
  proof -
    have "find (\<lambda>tw. tid tw = t) (tweets d) = None"
      using that by (auto simp: find_None_iff)
    then show ?thesis using that cnt by (simp add: retweet_def)
  qed
  assume h: "\<not> ?dup \<and> t \<in> tid ` set (tweets d)"
  then obtain tw where tw: "find (\<lambda>tw. tid tw = t) (tweets d) = Some tw"
    by (cases "find (\<lambda>tw. tid tw = t) (tweets d)") (auto simp: find_None_iff)
  then have mem: "tw \<in> set (tweets d)" and tid: "tid tw = t"
    by (auto simp: find_Some_iff)
  let ?row = "\<lparr>rt_tid = t, retweeter_id = int_affinity u, rt_writer_id = writer_id tw,
                  spam = 0, rdate = today\<rparr>"
  have res: "retweet d today t u = (d\<lparr>retweets := retweets d @ [?row]\<rparr>, RetweetPosted)"
    using h cnt tw by (simp add: retweet_def)
  show "\<exists>tw \<in> set (tweets d). tid tw = t \<and>
         retweet d today t u =
           (d\<lparr>retweets := retweets d @
                [\<lparr>rt_tid = t, retweeter_id = int_affinity u, rt_writer_id = writer_id tw,
                  spam = 0, rdate = today\<rparr>]\<rparr>,
            RetweetPosted)"
    using mem tid res by blast
  show "retweet_count (fst (retweet d today t u)) t = retweet_count d t + 1"
    unfolding res by (simp add: retweet_count_def)
  show "retweet (fst (retweet d today t u)) later t u =
        (fst (retweet d today t u), AlreadyRetweeted)"
    unfolding res by (simp add: retweet_def)
qed

text \<open>
  Every operation that writes keeps the link from the retweets to the tweets, and the
  empty store has it: it holds of every store the program builds.
\<close>

lemma refer_empty: "retweets_refer_to_tweets empty_db"
  by (simp add: retweets_refer_to_tweets_def empty_db_def)

lemma refer_retweet:
  assumes "retweets_refer_to_tweets d"
  shows "retweets_refer_to_tweets (fst (retweet d today t u))"
proof (cases "find (\<lambda>tw. tid tw = t) (tweets d)")
  case None
  then show ?thesis using assms by (simp add: retweet_def)
next
  case (Some tw)
  then have "t \<in> tid ` set (tweets d)" by (auto simp: find_Some_iff)
  then show ?thesis using assms Some
    by (auto simp: retweet_def retweets_refer_to_tweets_def)
qed

lemma refer_compose_tweet:
  assumes "retweets_refer_to_tweets d"
  shows "retweets_refer_to_tweets (fst (compose_tweet ok d u dt tm line))"
proof (cases "snd (compose_tweet ok d u dt tm line) = TweetPosted")
  case True
  then have "compose_tweet ok d u dt tm line = (fst (compose_tweet ok d u dt tm line), TweetPosted)"
    by (metis prod.collapse)
  from compose_tweet_posted [OF this] obtain hs where
    "fst (compose_tweet ok d u dt tm line) = posted d u dt tm (strip line) hs" by blast
  then show ?thesis using assms
    by (auto simp: retweets_refer_to_tweets_def posted_def)
next
  case False
  have "compose_tweet ok d u dt tm line =
      (fst (compose_tweet ok d u dt tm line), snd (compose_tweet ok d u dt tm line))" by simp
  from compose_tweet_not_posted [OF this False] show ?thesis using assms by simp
qed

lemma refer_other_writes:
  assumes "retweets_refer_to_tweets d"
  shows "retweets_refer_to_tweets (fst (sign_up d nm em ph pw))"
    and "retweets_refer_to_tweets (fst (follow_user d today cu n))"
    and "retweets_refer_to_tweets (fst (create_favorite_list d u line))"
    and "retweets_refer_to_tweets (fst (add_to_favorite_list d u t name_line choice_line))"
proof -
  show "retweets_refer_to_tweets (fst (sign_up d nm em ph pw))"
    using assms by (simp add: sign_up_def Let_def retweets_refer_to_tweets_def)
  show "retweets_refer_to_tweets (fst (follow_user d today cu n))"
    using assms by (simp add: follow_user_def retweets_refer_to_tweets_def)
  have c: "retweets_refer_to_tweets (fst (create_favorite_list d' u line))"
    if "retweets_refer_to_tweets d'" for d' line
    using that by (simp add: create_favorite_list_def Let_def retweets_refer_to_tweets_def)
  show "retweets_refer_to_tweets (fst (create_favorite_list d u line))"
    using assms by (rule c)
  have ch: "retweets_refer_to_tweets (fst (choose_list d' u t line))"
    if "retweets_refer_to_tweets d'" for d' line
    using that by (simp add: choose_list_def Let_def retweets_refer_to_tweets_def)
  show "retweets_refer_to_tweets (fst (add_to_favorite_list d u t name_line choice_line))"
    using assms c [OF assms, of name_line] ch
    by (auto simp: add_to_favorite_list_def split: prod.splits)
qed

text \<open>
  C4. On a store whose retweets refer to stored tweets: if the target tweet id does not
  exist, the call reports not-found and writes nothing; if a retweet row of the user
  for the tweet is stored, the call is a no-op that reports it; otherwise exactly one
  row is appended, with the tweet id, the user, the writer of the tweet, spam 0 and
  the current date, the number of retweets of the tweet grows by one, and the same call
  again is a no-op that leaves the number as it is (at 1 when it was 0 before). The
  store that results refers to stored tweets again.
\<close>

theorem retweet_admission:
  assumes "retweets_refer_to_tweets d"
  shows
   "(t \<notin> tid ` set (tweets d) \<longrightarrow> retweet d today t u = (d, TweetNotFound t)) \<and>
    ((\<exists>r \<in> set (retweets d). rt_tid r = t \<and> retweeter_id r = int_affinity u) \<longrightarrow>
       retweet d today t u = (d, AlreadyRetweeted)) \<and>
    (t \<in> tid ` set (tweets d) \<and>
     \<not> (\<exists>r \<in> set (retweets d). rt_tid r = t \<and> retweeter_id r = int_affinity u) \<longrightarrow>
       (\<exists>tw \<in> set (tweets d). tid tw = t \<and>
          retweet d today t u =
            (d\<lparr>retweets := retweets d @
                 [\<lparr>rt_tid = t, retweeter_id = int_affinity u, rt_writer_id = writer_id tw,
                   spam = 0, rdate = today\<rparr>]\<rparr>,
             RetweetPosted)) \<and>
       retweet_count (fst (retweet d today t u)) t = retweet_count d t + 1 \<and>
       retweet (fst (retweet d today t u)) later t u =
         (fst (retweet d today t u), AlreadyRetweeted) \<and>
       retweet_count (fst (retweet (fst (retweet d today t u)) later t u)) t =
         retweet_count d t + 1) \<and>
    retweets_refer_to_tweets (fst (retweet d today t u))"
proof (intro conjI impI)
  note cases = retweet_cases [of d t u today later]
  show "retweet d today t u = (d, TweetNotFound t)" if "t \<notin> tid ` set (tweets d)"
  proof -
    have "\<not> (\<exists>r \<in> set (retweets d). rt_tid r = t \<and> retweeter_id r = int_affinity u)"
      using assms that by (auto simp: retweets_refer_to_tweets_def)
    with that cases show ?thesis by blast
  qed
  show "retweet d today t u = (d, AlreadyRetweeted)"
    if "\<exists>r \<in> set (retweets d). rt_tid r = t \<and> retweeter_id r = int_affinity u"
    using that cases by blast
  show "retweets_refer_to_tweets (fst (retweet d today t u))"
    using assms by (rule refer_retweet)
  assume h: "t \<in> tid ` set (tweets d) \<and>
     \<not> (\<exists>r \<in> set (retweets d). rt_tid r = t \<and> retweeter_id r = int_affinity u)"
  show "\<exists>tw \<in> set (tweets d). tid tw = t \<and>
          retweet d today t u =
            (d\<lparr>retweets := retweets d @
                 [\<lparr>rt_tid = t, retweeter_id = int_affinity u, rt_writer_id = writer_id tw,
                   spam = 0, rdate = today\<rparr>]\<rparr>,
             RetweetPosted)"
    using h cases by blast
  show c1: "retweet_count (fst (retweet d today t u)) t = retweet_count d t + 1"
    using h cases by blast
  show c2: "retweet (fst (retweet d today t u)) later t u =
         (fst (retweet d today t u), AlreadyRetweeted)"
    using h cases by blast
  show "retweet_count (fst (retweet (fst (retweet d today t u)) later t u)) t =
         retweet_count d t + 1"
    using c1 by (simp only: c2 fst_conv)
qed

theorem retweet_admission_witness:
  "retweets_refer_to_tweets small_net \<and>
   99 \<notin> tid ` set (tweets small_net) \<and>
   retweet small_net ''2024-03-07'' 99 ''1'' = (small_net, TweetNotFound 99) \<and>
   retweet small_net ''2024-03-07'' 20 ''2'' = (small_net, AlreadyRetweeted) \<and>
   10 \<in> tid ` set (tweets small_net) \<and>
   retweet small_net ''2024-03-07'' 10 ''1'' =
     (small_net\<lparr>retweets := retweets small_net @
        [\<lparr>rt_tid = 10, retweeter_id = SInt 1, rt_writer_id = SInt 2, spam = 0,
          rdate = ''2024-03-07''\<rparr>]\<rparr>, RetweetPosted) \<and>
   retweet_count small_net 10 = 0 \<and>
   retweet_count (fst (retweet small_net ''2024-03-07'' 10 ''1'')) 10 = 1 \<and>
   retweet (fst (retweet small_net ''2024-03-07'' 10 ''1'')) ''2024-03-08'' 10 ''1'' =
     (fst (retweet small_net ''2024-03-07'' 10 ''1''), AlreadyRetweeted) \<and>
   retweet_count
     (fst (retweet (fst (retweet small_net ''2024-03-07'' 10 ''1'')) ''2024-03-08'' 10 ''1'')) 10 = 1 \<and>
   retweets_refer_to_tweets (fst (retweet small_net ''2024-03-07'' 10 ''1''))"
proof -
  have tids: "tid ` set (tweets small_net) = {10, 11, 12, 13, 14, 15, 20, 21}"
    by (auto simp: small_net_def empty_db_def)
  have rts: "map (\<lambda>r. (rt_tid r, retweeter_id r)) (retweets small_net) =
      [(20, SInt 2), (21, SInt 2)]"
    by (simp add: small_net_def empty_db_def)
  have i: "retweets_refer_to_tweets small_net"
    by (simp add: retweets_refer_to_tweets_def small_net_def empty_db_def)
  have m99: "99 \<notin> tid ` set (tweets small_net)" and m10: "10 \<in> tid ` set (tweets small_net)"
    by (simp_all add: tids)
  have dup20: "\<exists>r \<in> set (retweets small_net). rt_tid r = 20 \<and> retweeter_id r = int_affinity ''2''"
    by (simp add: small_net_def empty_db_def)
  have nodup10: "\<not> (\<exists>r \<in> set (retweets small_net). rt_tid r = 10 \<and> retweeter_id r = int_affinity ''1'')"
    by (simp add: small_net_def empty_db_def)
  have w10: "\<forall>tw \<in> set (tweets small_net). tid tw = 10 \<longrightarrow> writer_id tw = SInt 2"
    by (simp add: small_net_def empty_db_def)
  have c0: "retweet_count small_net 10 = 0"
    by (simp add: retweet_count_def small_net_def empty_db_def)
  note a = retweet_admission [OF i, of 99 "''2024-03-07''" "''1''" "''2024-03-08''"]
  note b = retweet_admission [OF i, of 20 "''2024-03-07''" "''2''" "''2024-03-08''"]
  note c = retweet_admission [OF i, of 10 "''2024-03-07''" "''1''" "''2024-03-08''"]
  have a': "retweet small_net ''2024-03-07'' 99 ''1'' = (small_net, TweetNotFound 99)"
    using a m99 by blast
  have b': "retweet small_net ''2024-03-07'' 20 ''2'' = (small_net, AlreadyRetweeted)"
    using b dup20 by blast
  from c m10 nodup10 obtain tw where tw: "tw \<in> set (tweets small_net)" "tid tw = 10"
    and r: "retweet small_net ''2024-03-07'' 10 ''1'' =
            (small_net\<lparr>retweets := retweets small_net @
                 [\<lparr>rt_tid = 10, retweeter_id = int_affinity ''1'', rt_writer_id = writer_id tw,
                   spam = 0, rdate = ''2024-03-07''\<rparr>]\<rparr>, RetweetPosted)"
    by blast
  from tw w10 have "writer_id tw = SInt 2" by blast
  with r have c1: "retweet small_net ''2024-03-07'' 10 ''1'' =
     (small_net\<lparr>retweets := retweets small_net @
        [\<lparr>rt_tid = 10, retweeter_id = SInt 1, rt_writer_id = SInt 2, spam = 0,
          rdate = ''2024-03-07''\<rparr>]\<rparr>, RetweetPosted)"
    by simp
  have c2: "retweet_count (fst (retweet small_net ''2024-03-07'' 10 ''1'')) 10 = 1"
    using c m10 nodup10 c0 by simp
  have c3: "retweet (fst (retweet small_net ''2024-03-07'' 10 ''1'')) ''2024-03-08'' 10 ''1'' =
     (fst (retweet small_net ''2024-03-07'' 10 ''1''), AlreadyRetweeted)"
    using c m10 nodup10 by blast
  have c4: "retweet_count
     (fst (retweet (fst (retweet small_net ''2024-03-07'' 10 ''1'')) ''2024-03-08'' 10 ''1'')) 10 = 1"
    using c m10 nodup10 c0 by simp
  have c5: "retweets_refer_to_tweets (fst (retweet small_net ''2024-03-07'' 10 ''1''))"
    using c by blast
  show ?thesis
    using i m99 a' b' m10 c1 c0 c2 c3 c4 c5 by (intro conjI)
qed
section \<open>Following: the claim\<close>

lemma digit_nth: "k < 10 \<Longrightarrow> ''0123456789'' ! k \<in> set ''0123456789'' \<and> digit_value (''0123456789'' ! k) = k"
proof -
  assume "k < 10"
  then consider "k = 0" | "k = 1" | "k = 2" | "k = 3" | "k = 4" | "k = 5" | "k = 6" | "k = 7"
    | "k = 8" | "k = 9" by atomize_elim arith
  then show ?thesis by cases (simp_all add: digit_value_def)
qed

lemma nat_of_digits_snoc: "nat_of_digits (s @ [c]) = 10 * nat_of_digits s + digit_value c"
  by (simp add: nat_of_digits_def)

lemma str_nat_digits: "isdigit (str_nat n) \<and> nat_of_digits (str_nat n) = n"
proof (induction n rule: str_nat.induct)
  case (1 n)
  show ?case
  proof (cases "n < 10")
    case True
    then show ?thesis
      using digit_nth [OF True] by (simp add: isdigit_def nat_of_digits_def)
  next
    case False
    have m: "n mod 10 < 10" by simp
    from False "1.IH" have IH: "isdigit (str_nat (n div 10))" "nat_of_digits (str_nat (n div 10)) = n div 10"
      by simp_all
    have s: "str_nat n = str_nat (n div 10) @ [''0123456789'' ! (n mod 10)]"
      using False by (subst str_nat.simps) simp
    show ?thesis
      unfolding s using IH digit_nth [OF m]
      by (auto simp: isdigit_def nat_of_digits_snoc simp del: str_nat.simps)
  qed
qed

lemma int_affinity_str_int: "int_affinity (str_int n) = SInt n"
proof (cases "n < 0")
  case True
  then show ?thesis
    using str_nat_digits [of "nat (- n)"] by (simp add: str_int_def int_affinity_def)
next
  case False
  obtain c cs where cs: "str_nat (nat n) = c # cs"
    using str_nat_digits [of "nat n"] by (cases "str_nat (nat n)") (auto simp: isdigit_def)
  have d: "isdigit (c # cs)" and v: "nat_of_digits (c # cs) = nat n"
    using str_nat_digits [of "nat n"] cs by simp_all
  from d have "c \<in> set ''0123456789''" by (simp add: isdigit_def)
  then have "c \<noteq> CHR ''-''" and "c \<noteq> CHR ''+''" by auto
  then show ?thesis
    using False cs d v by (simp add: str_int_def int_affinity_def)
qed

text \<open>What holds of \<open>follow_user\<close>: the user's id in the form that \<open>str\<close> gives it is
  refused whatever the follow graph holds, a call that succeeds appends one edge with
  the date of the day, and the same call again changes nothing.\<close>

lemma follow_user_canonical_self: "follow_user d today (str_int n) n = (d, CannotFollowSelf)"
  by (simp add: follow_user_def)

lemma follow_user_twice:
  assumes "follow_user d today u n = (d', NowFollowing)"
  shows "follows d' = follows d @ [\<lparr>flwer = int_affinity u, flwee = n, start_date = today\<rparr>]"
    and "follow_user d' later u n = (d', AlreadyFollowing)"
    and "length (filter (\<lambda>f. flwer f = int_affinity u \<and> flwee f = n) (follows d')) = 1"
proof -
  from assms have ne: "u \<noteq> str_int n"
    and no: "\<not> (\<exists>f \<in> set (follows d). flwer f = int_affinity u \<and> flwee f = n)"
    and d': "d' = d\<lparr>follows := follows d @
                [\<lparr>flwer = int_affinity u, flwee = n, start_date = today\<rparr>]\<rparr>"
    by (auto simp: follow_user_def split: if_splits)
  show "follows d' = follows d @ [\<lparr>flwer = int_affinity u, flwee = n, start_date = today\<rparr>]"
    by (simp add: d')
  show "follow_user d' later u n = (d', AlreadyFollowing)"
    using ne by (simp add: d' follow_user_def)
  have "filter (\<lambda>f. flwer f = int_affinity u \<and> flwee f = n) (follows d) = []"
    using no by (auto simp: filter_empty_conv)
  then show "length (filter (\<lambda>f. flwer f = int_affinity u \<and> flwee f = n) (follows d')) = 1"
    by (simp add: d')
qed

text \<open>
  C6. The user with id 7 who logged in by typing \<open>007\<close> follows user 7, who is the
  same user: the test of line 1010 compares the typed text with \<open>str(7)\<close>, the
  texts differ, and the edge from 7 to 7 is stored.
\<close>

theorem follow_self_not_rejected:
  "login three_users ''007'' ''b'' =
     Some \<lparr>usr = 7, name = ''Bob'', email = ''bob@x.org'', phone = ''2'', pwd = ''b''\<rparr> \<and>
   follow_user three_users ''2024-03-02'' ''007'' 7 =
     (three_users\<lparr>follows := [\<lparr>flwer = SInt 7, flwee = 7, start_date = ''2024-03-02''\<rparr>]\<rparr>,
      NowFollowing) \<and>
   follow_user three_users ''2024-03-02'' ''7'' 7 = (three_users, CannotFollowSelf)"
proof -
  have s: "strip ''007'' = ''007''" by (simp add: strip_def is_space_def)
  have t: "str_int 7 = ''7''" by (simp add: str_int_def)
  have f: "follows three_users = []" by (simp add: three_users_def empty_db_def)
  have "login three_users ''007'' ''b'' =
     Some \<lparr>usr = 7, name = ''Bob'', email = ''bob@x.org'', phone = ''2'', pwd = ''b''\<rparr>"
    by (simp add: login_def s three_users_def empty_db_def)
  moreover have "follow_user three_users ''2024-03-02'' ''007'' 7 =
     (three_users\<lparr>follows := [\<lparr>flwer = SInt 7, flwee = 7, start_date = ''2024-03-02''\<rparr>]\<rparr>,
      NowFollowing)"
    by (simp add: follow_user_def t f)
  moreover have "follow_user three_users ''2024-03-02'' ''7'' 7 = (three_users, CannotFollowSelf)"
    by (simp add: follow_user_def t)
  ultimately show ?thesis by (intro conjI)
qed

section \<open>Favorite lists: the claim\<close>

lemma isdigit_not_q: "isdigit s \<Longrightarrow> lower s \<noteq> ''q''"
proof
  assume d: "isdigit s" and q: "lower s = ''q''"
  from q obtain c where s: "s = [c]" and c: "lower_char c = CHR ''q''"
    by (cases s) (auto simp: lower_def)
  from d s have "c \<in> set ''0123456789''" by (simp add: isdigit_def)
  with c show False by (auto simp: lower_char_def)
qed

text \<open>
  C10. Adding a tweet to a favorite list does not look the tweet id up: when the user
  has a list, picks it by a number in range and the list does not hold the id yet, the
  membership row is inserted and success is reported, for every tweet id, stored or
  not; and whatever the \<open>tweets\<close> table holds, the call does the same.
\<close>

theorem add_to_favorite_list_no_tweet_check:
  assumes "fav_lists d u \<noteq> []"
    and "isdigit (strip choice_line)"
    and "1 \<le> nat_of_digits (strip choice_line)"
    and "nat_of_digits (strip choice_line) \<le> length (fav_lists d u)"
    and "\<not> (\<exists>m \<in> set (include_tbl d). inc_owner_id m = int_affinity u \<and>
              inc_lname m = fav_lists d u ! (nat_of_digits (strip choice_line) - 1) \<and>
              inc_tid m = t)"
  shows "add_to_favorite_list d u t name_line choice_line =
           (d\<lparr>include_tbl := include_tbl d @
                [\<lparr>inc_owner_id = int_affinity u,
                  inc_lname = fav_lists d u ! (nat_of_digits (strip choice_line) - 1),
                  inc_tid = t\<rparr>]\<rparr>,
            TweetAddedTo (fav_lists d u ! (nat_of_digits (strip choice_line) - 1))) \<and>
         add_to_favorite_list (d\<lparr>tweets := ts\<rparr>) u t name_line choice_line =
           (fst (add_to_favorite_list d u t name_line choice_line)\<lparr>tweets := ts\<rparr>,
            snd (add_to_favorite_list d u t name_line choice_line))"
proof -
  let ?k = "nat_of_digits (strip choice_line)"
  have idx: "nat (int ?k - 1) = ?k - 1" by simp
  have rng: "0 \<le> int ?k - 1 \<and> int ?k - 1 < int (length (fav_lists d u))"
    using assms(3,4) by simp
  have q: "lower (strip choice_line) \<noteq> ''q''"
    using assms(2) by (rule isdigit_not_q)
  have fl: "fav_lists (d\<lparr>tweets := ts\<rparr>) u = fav_lists d u"
    by (simp add: fav_lists_def)
  have one: "add_to_favorite_list d u t name_line choice_line =
           (d\<lparr>include_tbl := include_tbl d @
                [\<lparr>inc_owner_id = int_affinity u, inc_lname = fav_lists d u ! (?k - 1),
                  inc_tid = t\<rparr>]\<rparr>,
            TweetAddedTo (fav_lists d u ! (?k - 1)))"
    using assms(1,2,5) q rng
    by (simp add: add_to_favorite_list_def choose_list_def Let_def idx)
  have two: "add_to_favorite_list (d\<lparr>tweets := ts\<rparr>) u t name_line choice_line =
           (d\<lparr>tweets := ts, include_tbl := include_tbl d @
                [\<lparr>inc_owner_id = int_affinity u, inc_lname = fav_lists d u ! (?k - 1),
                  inc_tid = t\<rparr>]\<rparr>,
            TweetAddedTo (fav_lists d u ! (?k - 1)))"
    using assms(1,2,5) q rng
    by (simp add: add_to_favorite_list_def choose_list_def Let_def idx fl)
  show ?thesis unfolding one two by simp
qed

theorem add_to_favorite_list_no_tweet_check_witness:
  "fav_lists one_list ''1'' \<noteq> [] \<and>
   isdigit (strip '' 1 '') \<and> 1 \<le> nat_of_digits (strip '' 1 '') \<and>
   nat_of_digits (strip '' 1 '') \<le> length (fav_lists one_list ''1'') \<and>
   99 \<notin> tid ` set (tweets one_list) \<and>
   add_to_favorite_list one_list ''1'' 99 [] '' 1 '' =
     (one_list\<lparr>include_tbl := [\<lparr>inc_owner_id = SInt 1, inc_lname = ''best'', inc_tid = 99\<rparr>]\<rparr>,
      TweetAddedTo ''best'')"
proof -
  have s: "strip '' 1 '' = ''1''" by (simp add: strip_def is_space_def)
  have fl: "fav_lists one_list ''1'' = [''best'']"
    by (simp add: fav_lists_def one_list_def empty_db_def)
  have inc: "include_tbl one_list = []" and tw: "tweets one_list = []"
    by (simp_all add: one_list_def empty_db_def)
  have a: "fav_lists one_list ''1'' \<noteq> []" by (simp add: fl)
  have b: "isdigit (strip '' 1 '')" unfolding s by (simp add: isdigit_def)
  have n: "nat_of_digits (strip '' 1 '') = 1"
    unfolding s by (simp add: nat_of_digits_def digit_value_def)
  have c: "1 \<le> nat_of_digits (strip '' 1 '')"
    and e: "nat_of_digits (strip '' 1 '') \<le> length (fav_lists one_list ''1'')"
    by (simp_all add: n fl)
  have f: "\<not> (\<exists>m \<in> set (include_tbl one_list). inc_owner_id m = int_affinity ''1'' \<and>
              inc_lname m = fav_lists one_list ''1'' ! (nat_of_digits (strip '' 1 '') - 1) \<and>
              inc_tid m = 99)"
    by (simp add: inc)
  note t = add_to_favorite_list_no_tweet_check [OF a b c e f, of "[]" "[]", THEN conjunct1]
  have "add_to_favorite_list one_list ''1'' 99 [] '' 1 '' =
     (one_list\<lparr>include_tbl := [\<lparr>inc_owner_id = SInt 1, inc_lname = ''best'', inc_tid = 99\<rparr>]\<rparr>,
      TweetAddedTo ''best'')"
    using t by (simp add: n fl inc)
  moreover have "99 \<notin> tid ` set (tweets one_list)" by (simp add: tw)
  ultimately show ?thesis using a b c e by (intro conjI)
qed

section \<open>Properties of the search query\<close>

lemma sql_like_percent_all: "sql_like ''%'' s"
  by (induction s) simp_all

lemma sql_like_percent:
  "sql_like (CHR ''%'' # p) s \<longleftrightarrow> (\<exists>pre suf. s = pre @ suf \<and> sql_like p suf)"
proof (induction s)
  case Nil
  show ?case by simp
next
  case (Cons c cs)
  show ?case
  proof
    assume "sql_like (CHR ''%'' # p) (c # cs)"
    then have "sql_like p (c # cs) \<or> sql_like (CHR ''%'' # p) cs" by simp
    then show "\<exists>pre suf. c # cs = pre @ suf \<and> sql_like p suf"
    proof
      assume "sql_like p (c # cs)"
      then have "c # cs = [] @ (c # cs) \<and> sql_like p (c # cs)" by simp
      then show ?thesis by blast
    next
      assume "sql_like (CHR ''%'' # p) cs"
      with Cons.IH obtain pre suf where "cs = pre @ suf" "sql_like p suf" by blast
      then have "c # cs = (c # pre) @ suf \<and> sql_like p suf" by simp
      then show ?thesis by blast
    qed
  next
    assume "\<exists>pre suf. c # cs = pre @ suf \<and> sql_like p suf"
    then obtain pre suf where ps: "c # cs = pre @ suf" "sql_like p suf" by blast
    show "sql_like (CHR ''%'' # p) (c # cs)"
    proof (cases pre)
      case Nil
      with ps have "sql_like p (c # cs)" by simp
      then show ?thesis by simp
    next
      case (Cons a pre')
      with ps have "cs = pre' @ suf" by simp
      with ps(2) Cons.IH have "sql_like (CHR ''%'' # p) cs" by blast
      then show ?thesis by simp
    qed
  qed
qed

lemma sql_like_plain:
  assumes "CHR ''%'' \<notin> set kw" and "CHR ''_'' \<notin> set kw"
  shows "sql_like (kw @ p) s \<longleftrightarrow>
           (\<exists>mid suf. s = mid @ suf \<and> lower mid = lower kw \<and> sql_like p suf)"
  using assms
proof (induction kw arbitrary: s)
  case Nil
  show ?case by (simp add: lower_def)
next
  case (Cons k kw)
  have k: "k \<noteq> CHR ''%''" "k \<noteq> CHR ''_''" using Cons.prems by auto
  have IH: "sql_like (kw @ p) t \<longleftrightarrow>
           (\<exists>mid suf. t = mid @ suf \<and> lower mid = lower kw \<and> sql_like p suf)" for t
    using Cons.IH Cons.prems by simp
  show ?case
  proof (cases s)
    case Nil
    then show ?thesis using k by (simp add: lower_def)
  next
    case (Cons c cs)
    have "sql_like ((k # kw) @ p) (c # cs) \<longleftrightarrow> lower_char k = lower_char c \<and> sql_like (kw @ p) cs"
      using k by simp
    also have "\<dots> \<longleftrightarrow> lower_char k = lower_char c \<and>
        (\<exists>mid suf. cs = mid @ suf \<and> lower mid = lower kw \<and> sql_like p suf)"
      by (simp only: IH)
    also have "\<dots> \<longleftrightarrow> (\<exists>mid suf. c # cs = mid @ suf \<and> lower mid = lower (k # kw) \<and> sql_like p suf)"
    proof
      assume "lower_char k = lower_char c \<and>
        (\<exists>mid suf. cs = mid @ suf \<and> lower mid = lower kw \<and> sql_like p suf)"
      then obtain mid suf where "lower_char k = lower_char c" "cs = mid @ suf"
        "lower mid = lower kw" "sql_like p suf" by blast
      then have "c # cs = (c # mid) @ suf \<and> lower (c # mid) = lower (k # kw) \<and> sql_like p suf"
        by (simp add: lower_def)
      then show "\<exists>mid suf. c # cs = mid @ suf \<and> lower mid = lower (k # kw) \<and> sql_like p suf"
        by blast
    next
      assume "\<exists>mid suf. c # cs = mid @ suf \<and> lower mid = lower (k # kw) \<and> sql_like p suf"
      then obtain mid suf where m: "c # cs = mid @ suf" "lower mid = lower (k # kw)"
        "sql_like p suf" by blast
      from m(2) obtain a mid' where mid: "mid = a # mid'"
        by (cases mid) (auto simp: lower_def)
      with m have "a = c" "cs = mid' @ suf" "lower_char a = lower_char k" "lower mid' = lower kw"
        by (auto simp: lower_def)
      with m(3) show "lower_char k = lower_char c \<and>
        (\<exists>mid suf. cs = mid @ suf \<and> lower mid = lower kw \<and> sql_like p suf)"
        by auto
    qed
    finally show ?thesis using Cons by simp
  qed
qed

text \<open>
  For a keyword without \<open>%\<close> and \<open>_\<close> the pattern \<open>%kw%\<close> matches the texts
  that contain the keyword, without regard to case.
\<close>

lemma sql_like_keyword:
  assumes "CHR ''%'' \<notin> set kw" and "CHR ''_'' \<notin> set kw"
  shows "sql_like (''%'' @ kw @ ''%'') s \<longleftrightarrow>
           (\<exists>pre mid suf. s = pre @ mid @ suf \<and> lower mid = lower kw)"
proof -
  have "sql_like (''%'' @ kw @ ''%'') s \<longleftrightarrow>
          (\<exists>pre suf. s = pre @ suf \<and> sql_like (kw @ ''%'') suf)"
    using sql_like_percent [of "kw @ ''%''" s] by simp
  also have "\<dots> \<longleftrightarrow> (\<exists>pre suf. s = pre @ suf \<and>
      (\<exists>mid suf'. suf = mid @ suf' \<and> lower mid = lower kw \<and> sql_like ''%'' suf'))"
    by (simp only: sql_like_plain [OF assms])
  also have "\<dots> \<longleftrightarrow> (\<exists>pre mid suf. s = pre @ mid @ suf \<and> lower mid = lower kw)"
    by (auto simp: sql_like_percent_all)
  finally show ?thesis .
qed

text \<open>The result of a search has no row twice and holds the rows of both parts.\<close>

lemma search_tweets_rows:
  assumes "search_tweets d line = Some rows"
  shows "distinct rows \<and>
         set rows = set (text_matches d (keywords_of line)) \<union>
                    set (hashtag_matches d (keywords_of line))"
proof -
  let ?u = "remdups (text_matches d (keywords_of line) @ hashtag_matches d (keywords_of line))"
  from assms have rows: "rows = rev (sort_key (\<lambda>r. (found_tdate r, found_ttime r)) ?u)"
    by (auto simp: search_tweets_def Let_def split: if_splits)
  have "distinct rows" unfolding rows by (simp add: distinct_rev)
  moreover have "set rows = set ?u" unfolding rows by simp
  ultimately show ?thesis by simp
qed

section \<open>Searching tweets: the claim\<close>

text \<open>
  C3. The keyword \<open>_\<close> finds the tweet whose text is \<open>abc\<close>, which has no hashtag
  and does not contain the keyword: in the pattern \<open>%_%\<close> the keyword stands for any
  one character.
\<close>

theorem search_finds_text_without_keyword:
  "keywords_of ''_'' = [''_''] \<and>
   search_tweets one_tweet ''_'' =
     Some [\<lparr>found_tid = 1, found_writer_id = SInt 2, found_text = ''abc'',
            found_tdate = ''2024-03-01'', found_ttime = ''09:00:00''\<rparr>] \<and>
   \<not> spec_text_match ''_'' ''abc'' \<and>
   hashtag_mentions one_tweet = []"
proof -
  have k: "keywords_of ''_'' = [''_'']"
    by (simp add: keywords_of_def strip_def is_space_def lower_def lower_char_def)
  have l: "lower ''abc'' = ''abc''" by (simp add: lower_def lower_char_def)
  have m: "sql_like ''%_%'' ''abc''" by simp
  have "search_tweets one_tweet ''_'' =
     Some [\<lparr>found_tid = 1, found_writer_id = SInt 2, found_text = ''abc'',
            found_tdate = ''2024-03-01'', found_ttime = ''09:00:00''\<rparr>]"
    using m by (simp add: search_tweets_def k text_matches_def hashtag_matches_def found_def l
        one_tweet_def empty_db_def)
  moreover have "\<not> spec_text_match ''_'' ''abc''"
    by (simp add: spec_text_match_def lower_def lower_char_def)
  moreover have "hashtag_mentions one_tweet = []"
    by (simp add: one_tweet_def empty_db_def)
  ultimately show ?thesis using k by (intro conjI)
qed

end
